theory Spec2Isabelle
  imports Main "HOL-Library.Word"
begin

unbundle bit_operations_syntax

section \<open>Byte buffers and the Buffer operations the encoder uses\<close>

text \<open>
  A Node \<open>Buffer\<close> is a list of bytes. Numbers are JavaScript numbers; every number the
  encoder handles is a non-negative integer far below \<open>2^53\<close>, hence \<open>nat\<close>.
  The functions are typed \<open>Buffer\<close> and \<open>Buffer[]\<close> in the source but test their
  arguments at run time (\<open>Buffer.isBuffer\<close>, \<open>Array.isArray\<close>), so an argument is a
  \<open>js_value\<close>: a buffer, an array of values, or anything else. A buffer may have any
  length: the limit that the platform puts on the length of a buffer, like the memory it
  has, is outside the model.
\<close>

type_synonym byte = "8 word"
type_synonym buffer = "byte list"

datatype js_value = JBuffer buffer | JArray "js_value list" | JOther

text \<open>
  Every \<open>throw\<close> of the source is a constructor. The messages of the source carry the image
  index and the offending values; the constructors carry the same data. \<open>ERR_OUT_OF_RANGE\<close>
  is the \<open>RangeError\<close> that the \<open>read...\<close>/\<open>write...\<close> methods of \<open>Buffer\<close> raise for an
  offset outside the buffer or a value outside the range of the field.
\<close>

datatype error =
    NotABuffer nat
  | BufferTooSmall nat nat
  | InvalidSignature nat nat
  | InvalidIhdrLength nat nat
  | ExpectedIhdr nat string
  | InvalidDimensions nat nat nat
  | DimensionsTooLarge nat nat nat
  | NotAnArray
  | NoPngBuffers
  | TooManyImages nat
  | FailedToProcess nat error
  | InvalidIcoFile
  | InvalidPngFile
  | ERR_OUT_OF_RANGE

text \<open>Sequencing of calls that may throw: the first error ends the computation.\<close>

definition and_then :: "error + 'a \<Rightarrow> ('a \<Rightarrow> error + 'b) \<Rightarrow> error + 'b" where
  "and_then m f = (case m of Inl e \<Rightarrow> Inl e | Inr x \<Rightarrow> f x)"

text \<open>\<open>Buffer.alloc(n)\<close>: \<open>n\<close> zero bytes.\<close>

definition Buffer_alloc :: "nat \<Rightarrow> buffer" where
  "Buffer_alloc n = replicate n 0"

text \<open>\<open>Buffer.concat(list)\<close>: a new buffer holding the bytes of all the buffers in order.\<close>

definition Buffer_concat :: "buffer list \<Rightarrow> buffer" where
  "Buffer_concat bs = concat bs"

text \<open>\<open>buf[i]\<close> read: the byte, or \<open>undefined\<close> (here \<open>None\<close>) outside the buffer.\<close>

definition byte_at :: "buffer \<Rightarrow> nat \<Rightarrow> byte option" where
  "byte_at buf i = (if i < length buf then Some (buf ! i) else None)"

text \<open>
  \<open>buf[i] = v\<close> on a buffer stores \<open>v\<close> modulo 256 and does nothing outside the buffer;
  \<open>of_nat\<close> into \<open>8 word\<close> and \<open>list_update\<close> do the same.
\<close>

definition set_byte :: "buffer \<Rightarrow> nat \<Rightarrow> nat \<Rightarrow> buffer" where
  "set_byte buf i v = buf[i := of_nat v]"

definition readUInt16LE :: "buffer \<Rightarrow> nat \<Rightarrow> error + nat" where
  "readUInt16LE buf off =
     (if off + 2 \<le> length buf
      then Inr (unat (buf ! off) + 256 * unat (buf ! (off + 1)))
      else Inl ERR_OUT_OF_RANGE)"

definition readUInt32LE :: "buffer \<Rightarrow> nat \<Rightarrow> error + nat" where
  "readUInt32LE buf off =
     (if off + 4 \<le> length buf
      then Inr (unat (buf ! off) + 256 * unat (buf ! (off + 1))
                + 65536 * unat (buf ! (off + 2)) + 16777216 * unat (buf ! (off + 3)))
      else Inl ERR_OUT_OF_RANGE)"

definition readUInt32BE :: "buffer \<Rightarrow> nat \<Rightarrow> error + nat" where
  "readUInt32BE buf off =
     (if off + 4 \<le> length buf
      then Inr (16777216 * unat (buf ! off) + 65536 * unat (buf ! (off + 1))
                + 256 * unat (buf ! (off + 2)) + unat (buf ! (off + 3)))
      else Inl ERR_OUT_OF_RANGE)"

text \<open>
  \<open>buf.writeUInt16LE(value, off)\<close> and \<open>buf.writeUInt32LE(value, off)\<close> check the value
  against the range of the field, then the offset against the buffer, and throw a
  \<open>RangeError\<close> when either is out of range.
\<close>

definition writeUInt16LE :: "buffer \<Rightarrow> nat \<Rightarrow> nat \<Rightarrow> error + buffer" where
  "writeUInt16LE buf v off =
     (if v > 65535 then Inl ERR_OUT_OF_RANGE
      else if off + 2 > length buf then Inl ERR_OUT_OF_RANGE
      else Inr (buf[off := of_nat v, off + 1 := of_nat (v div 256)]))"

definition writeUInt32LE :: "buffer \<Rightarrow> nat \<Rightarrow> nat \<Rightarrow> error + buffer" where
  "writeUInt32LE buf v off =
     (if v > 4294967295 then Inl ERR_OUT_OF_RANGE
      else if off + 4 > length buf then Inl ERR_OUT_OF_RANGE
      else Inr (buf[off := of_nat v, off + 1 := of_nat (v div 256),
                    off + 2 := of_nat (v div 65536), off + 3 := of_nat (v div 16777216)]))"

text \<open>
  \<open>buf.toString('ascii', start, end)\<close>: the bytes from \<open>start\<close> up to \<open>end\<close> (clamped to
  the buffer), each decoded as a character after its highest bit is cleared, as Node's
  \<open>'ascii'\<close> decoding does.
\<close>

definition toString_ascii :: "buffer \<Rightarrow> nat \<Rightarrow> nat \<Rightarrow> string" where
  "toString_ascii buf start end' =
     map (\<lambda>b. char_of (unat (b AND 127))) (take (end' - start) (drop start buf))"

text \<open>
  \<open>source.copy(target, targetStart)\<close>: the bytes of \<open>source\<close> overwrite \<open>target\<close> from
  \<open>targetStart\<close> on, as many as fit.
\<close>

definition Buffer_copy :: "buffer \<Rightarrow> buffer \<Rightarrow> nat \<Rightarrow> buffer" where
  "Buffer_copy source target targetStart =
     (if targetStart \<ge> length target then target
      else take targetStart target @ take (length target - targetStart) source
           @ drop (targetStart + length source) target)"

section \<open>Constants\<close>

definition PNG_SIGNATURE :: "byte list" where
  "PNG_SIGNATURE = [0x89, 0x50, 0x4e, 0x47, 0x0d, 0x0a, 0x1a, 0x0a]"

definition HEADER_SIZE :: nat where "HEADER_SIZE = 6"
definition DIR_ENTRY_SIZE :: nat where "DIR_ENTRY_SIZE = 16"
definition MAX_IMAGES :: nat where "MAX_IMAGES = 256"
definition MAX_DIMENSION :: nat where "MAX_DIMENSION = 256"
definition TYPE_ICO :: nat where "TYPE_ICO = 1"
definition TYPE_CUR :: nat where "TYPE_CUR = 2"
definition PLANES :: nat where "PLANES = 1"
definition BITS_PER_PIXEL :: nat where "BITS_PER_PIXEL = 32"


section \<open>PNG validation\<close>

text \<open>
  The \<open>{ width, height, size }\<close> objects that \<open>getIcoInfo\<close> returns, and \<open>PngImageInfo\<close>,
  which has the same three fields and the buffer. The field \<open>size\<close> is \<open>size_bytes\<close> here.
\<close>

record ImageEntry =
  width :: nat
  height :: nat
  size_bytes :: nat

record PngImageInfo = ImageEntry +
  buffer :: buffer

definition validateAndExtractPngInfo :: "js_value \<Rightarrow> nat \<Rightarrow> error + PngImageInfo" where
  "validateAndExtractPngInfo v index =
     (case v of
        JBuffer buf \<Rightarrow>
          if length buf < 24 then Inl (BufferTooSmall index (length buf))
          else
            (case find (\<lambda>i. byte_at buf i \<noteq> Some (PNG_SIGNATURE ! i)) [0..<length PNG_SIGNATURE] of
               Some i \<Rightarrow> Inl (InvalidSignature index i)
             | None \<Rightarrow>
                 and_then (readUInt32BE buf 8) (\<lambda>ihdrLength.
                   if ihdrLength \<noteq> 13 then Inl (InvalidIhdrLength index ihdrLength)
                   else
                     let ihdrType = toString_ascii buf 12 16 in
                     if ihdrType \<noteq> ''IHDR'' then Inl (ExpectedIhdr index ihdrType)
                     else
                       and_then (readUInt32BE buf 16) (\<lambda>w.
                       and_then (readUInt32BE buf 20) (\<lambda>h.
                         if w = 0 \<or> h = 0 then Inl (InvalidDimensions index w h)
                         else if w > MAX_DIMENSION \<or> h > MAX_DIMENSION
                           then Inl (DimensionsTooLarge index w h)
                         else Inr \<lparr>width = w, height = h, size_bytes = length buf,
                                   buffer = buf\<rparr>))))
      | _ \<Rightarrow> Inl (NotABuffer index))"

section \<open>Directory entries and encoding\<close>

definition createIcoDirectoryEntry :: "PngImageInfo \<Rightarrow> nat \<Rightarrow> error + buffer" where
  "createIcoDirectoryEntry imageInfo offset =
     (let entry = Buffer_alloc DIR_ENTRY_SIZE;
          entry = set_byte entry 0 (if width imageInfo = MAX_DIMENSION then 0 else width imageInfo);
          entry = set_byte entry 1 (if height imageInfo = MAX_DIMENSION then 0 else height imageInfo);
          entry = set_byte entry 2 0;
          entry = set_byte entry 3 0
      in and_then (writeUInt16LE entry PLANES 4) (\<lambda>entry.
         and_then (writeUInt16LE entry BITS_PER_PIXEL 6) (\<lambda>entry.
         and_then (writeUInt32LE entry (size_bytes imageInfo) 8) (\<lambda>entry.
         writeUInt32LE entry offset 12))))"

text \<open>
  The validation loop of \<open>encodeIco\<close>: image \<open>i\<close> (0-based) is validated under the index
  \<open>i + 1\<close>, and whatever the validation throws is caught and thrown again wrapped with
  \<open>i + 1\<close>.
\<close>

fun validate_all :: "js_value list \<Rightarrow> nat \<Rightarrow> error + PngImageInfo list" where
  "validate_all [] i = Inr []"
| "validate_all (b # bs) i =
     (case validateAndExtractPngInfo b (i + 1) of
        Inl e \<Rightarrow> Inl (FailedToProcess (i + 1) e)
      | Inr info \<Rightarrow> and_then (validate_all bs (i + 1)) (\<lambda>infos. Inr (info # infos)))"

text \<open>
  The duplicate-dimension loop only prints warnings (\<open>console.warn\<close>); these are the keys
  it warns about, in order. It has no part in the returned buffer.
\<close>

fun duplicate_warnings :: "PngImageInfo list \<Rightarrow> (nat \<times> nat) set \<Rightarrow> (nat \<times> nat) list" where
  "duplicate_warnings [] dimensionSet = []"
| "duplicate_warnings (info # infos) dimensionSet =
     (let key = (width info, height info) in
      (if key \<in> dimensionSet then [key] else [])
      @ duplicate_warnings infos (insert key dimensionSet))"

definition write_header :: "nat \<Rightarrow> error + buffer" where
  "write_header count =
     and_then (writeUInt16LE (Buffer_alloc HEADER_SIZE) 0 0) (\<lambda>header.
     and_then (writeUInt16LE header TYPE_ICO 2) (\<lambda>header.
     writeUInt16LE header count 4))"

text \<open>
  The directory loop of \<open>encodeIco\<close>, from image \<open>i\<close> on: build the entry at the running
  offset, copy it to position \<open>16 i\<close> of the table, advance the offset by the image's size.
\<close>

fun write_entries :: "PngImageInfo list \<Rightarrow> nat \<Rightarrow> nat \<Rightarrow> buffer \<Rightarrow> error + buffer" where
  "write_entries [] i offset dirEntries = Inr dirEntries"
| "write_entries (info # infos) i offset dirEntries =
     and_then (createIcoDirectoryEntry info offset) (\<lambda>entry.
       write_entries infos (i + 1) (offset + size_bytes info)
         (Buffer_copy entry dirEntries (i * DIR_ENTRY_SIZE)))"

definition encodeIco :: "js_value \<Rightarrow> error + buffer" where
  "encodeIco v =
     (case v of
        JArray pngBuffers \<Rightarrow>
          if length pngBuffers = 0 then Inl NoPngBuffers
          else if length pngBuffers > MAX_IMAGES then Inl (TooManyImages (length pngBuffers))
          else
            and_then (validate_all pngBuffers 0) (\<lambda>imageInfos.
              let count = length imageInfos in
              and_then (write_header count) (\<lambda>header.
                let dirEntries = Buffer_alloc (DIR_ENTRY_SIZE * count);
                    offset = length header + length dirEntries
                in and_then (write_entries imageInfos 0 offset dirEntries) (\<lambda>dirEntries.
                     Inr (Buffer_concat ([header, dirEntries] @ map buffer imageInfos)))))
      | _ \<Rightarrow> Inl NotAnArray)"

text \<open>The warnings a call of \<open>encodeIco\<close> prints: none unless all images pass validation.\<close>

definition encodeIco_warnings :: "js_value \<Rightarrow> (nat \<times> nat) list" where
  "encodeIco_warnings v =
     (case v of
        JArray pngBuffers \<Rightarrow>
          if length pngBuffers = 0 \<or> length pngBuffers > MAX_IMAGES then []
          else (case validate_all pngBuffers 0 of
                  Inl e \<Rightarrow> []
                | Inr imageInfos \<Rightarrow> duplicate_warnings imageInfos {})
      | _ \<Rightarrow> [])"

definition pngToIco :: "js_value \<Rightarrow> error + buffer" where
  "pngToIco pngBuffer = encodeIco (JArray [pngBuffer])"

section \<open>Inspection\<close>

datatype ico_type = ICO | CUR

record IcoInfo =
  imageCount :: nat
  type :: ico_type
  images :: "ImageEntry list"

definition isValidIco :: "js_value \<Rightarrow> error + bool" where
  "isValidIco v =
     (case v of
        JBuffer buf \<Rightarrow>
          if length buf < HEADER_SIZE then Inr False
          else
            and_then (readUInt16LE buf 0) (\<lambda>reserved.
            and_then (readUInt16LE buf 2) (\<lambda>type.
            and_then (readUInt16LE buf 4) (\<lambda>count.
              Inr (reserved = 0 \<and> (type = TYPE_ICO \<or> type = TYPE_CUR)
                   \<and> count > 0 \<and> count \<le> MAX_IMAGES))))
      | _ \<Rightarrow> Inr False)"

text \<open>
  The loop of \<open>getIcoInfo\<close> from entry \<open>i\<close> on. The two indexed reads come after the test
  that the whole entry lies inside the buffer, so they are reads inside the buffer.
\<close>

function getIcoInfo_loop :: "buffer \<Rightarrow> nat \<Rightarrow> nat \<Rightarrow> ImageEntry list \<Rightarrow> error + ImageEntry list" where
  "getIcoInfo_loop buf count i imgs =
     (if i < count then
        let entryOffset = HEADER_SIZE + i * DIR_ENTRY_SIZE in
        if entryOffset + DIR_ENTRY_SIZE > length buf then Inr imgs
        else
          let w = unat (buf ! entryOffset);
              h = unat (buf ! (entryOffset + 1))
          in and_then (readUInt32LE buf (entryOffset + 8)) (\<lambda>sz.
               let w = (if w = 0 then MAX_DIMENSION else w);
                   h = (if h = 0 then MAX_DIMENSION else h)
               in getIcoInfo_loop buf count (i + 1)
                    (imgs @ [\<lparr>width = w, height = h, size_bytes = sz\<rparr>]))
      else Inr imgs)"
  by pat_completeness auto
termination
  by (relation "measure (\<lambda>(buf, count, i, imgs). count - i)") auto

definition getIcoInfo :: "js_value \<Rightarrow> error + IcoInfo" where
  "getIcoInfo v =
     and_then (isValidIco v) (\<lambda>ok.
       if \<not> ok then Inl InvalidIcoFile
       else
         (case v of
            JBuffer buf \<Rightarrow>
              and_then (readUInt16LE buf 2) (\<lambda>ty.
              and_then (readUInt16LE buf 4) (\<lambda>count.
              and_then (getIcoInfo_loop buf count 0 []) (\<lambda>imgs.
                Inr \<lparr>imageCount = count,
                     type = (if ty = TYPE_ICO then ICO else CUR),
                     images = imgs\<rparr>)))
          | _ \<Rightarrow> Inl InvalidIcoFile))"

section \<open>The second encoder\<close>

text \<open>
  The repository holds a second \<open>encodeIco\<close>, which checks only the signature of each
  image, as two big-endian words, and writes every directory entry straight into the
  table. Its argument is taken at its declared type \<open>Buffer[]\<close>. The body of its
  \<open>forEach\<close>, from image \<open>i\<close> on, is \<open>alt_entries\<close>; the \<open>||\<close> of the signature test
  reads the second word only when the first one matches.
\<close>

fun alt_entries :: "buffer list \<Rightarrow> nat \<Rightarrow> nat \<Rightarrow> buffer \<Rightarrow> error + buffer" where
  "alt_entries [] i offset dirEntries = Inr dirEntries"
| "alt_entries (buf # bufs) i offset dirEntries =
     and_then (readUInt32BE buf 0) (\<lambda>sig0.
     and_then (if sig0 \<noteq> 0x89504e47 then Inr True
               else and_then (readUInt32BE buf 4) (\<lambda>sig1. Inr (sig1 \<noteq> 0x0d0a1a0a))) (\<lambda>bad.
     if bad then Inl InvalidPngFile
     else
       and_then (readUInt32BE buf 16) (\<lambda>w.
       and_then (readUInt32BE buf 20) (\<lambda>h.
         let dirEntries = set_byte dirEntries (i * 16 + 0) (if w = 256 then 0 else w);
             dirEntries = set_byte dirEntries (i * 16 + 1) (if h = 256 then 0 else h);
             dirEntries = set_byte dirEntries (i * 16 + 2) 0;
             dirEntries = set_byte dirEntries (i * 16 + 3) 0
         in and_then (writeUInt16LE dirEntries 1 (i * 16 + 4)) (\<lambda>dirEntries.
            and_then (writeUInt16LE dirEntries 32 (i * 16 + 6)) (\<lambda>dirEntries.
            and_then (writeUInt32LE dirEntries (length buf) (i * 16 + 8)) (\<lambda>dirEntries.
            and_then (writeUInt32LE dirEntries offset (i * 16 + 12)) (\<lambda>dirEntries.
              alt_entries bufs (i + 1) (offset + length buf) dirEntries))))))))"

definition encodeIco_alt :: "buffer list \<Rightarrow> error + buffer" where
  "encodeIco_alt pngBuffers =
     (let count = length pngBuffers in
      and_then (writeUInt16LE (Buffer_alloc 6) 0 0) (\<lambda>header.
      and_then (writeUInt16LE header 1 2) (\<lambda>header.
      and_then (writeUInt16LE header count 4) (\<lambda>header.
        let dirEntries = Buffer_alloc (16 * count);
            offset = length header + length dirEntries
        in and_then (alt_entries pngBuffers 0 offset dirEntries) (\<lambda>dirEntries.
             Inr (Buffer_concat ([header, dirEntries] @ pngBuffers)))))))"

section \<open>The encoder on a store of buffers\<close>

text \<open>
  Whether \<open>encodeIco\<close> changes its inputs is a question about objects, not values. Here
  the buffers live in a store, a list of buffers in which a buffer's address is its
  position; a JavaScript value refers to buffers by address, so that two elements of the
  input array may be the same buffer. \<open>Buffer.alloc\<close> and \<open>Buffer.concat\<close> add a buffer
  at the end of the store, an indexed assignment or a \<open>write...\<close> call changes the buffer
  at the address it is called on, and \<open>copy\<close> changes its target. A function returns its
  result, or the error it threw, together with the store it leaves behind.
\<close>

type_synonym addr = nat
type_synonym store = "buffer list"

datatype js_ref = RBuffer addr | RArray "js_ref list" | ROther

text \<open>The value a reference stands for, and the references that point into the store.\<close>

fun fetch :: "store \<Rightarrow> js_ref \<Rightarrow> js_value" where
  "fetch s (RBuffer a) = JBuffer (s ! a)"
| "fetch s (RArray rs) = JArray (map (fetch s) rs)"
| "fetch s ROther = JOther"

fun allocated :: "store \<Rightarrow> js_ref \<Rightarrow> bool" where
  "allocated s (RBuffer a) = (a < length s)"
| "allocated s (RArray rs) = list_all (allocated s) rs"
| "allocated s ROther = True"

text \<open>\<open>PngImageInfo\<close> with its \<open>buffer\<close> field as the address of the input buffer.\<close>

record PngImageRef = ImageEntry +
  buffer_ref :: addr

definition st_bind ::
  "(error + 'a) \<times> store \<Rightarrow> ('a \<Rightarrow> store \<Rightarrow> (error + 'b) \<times> store) \<Rightarrow> (error + 'b) \<times> store" where
  "st_bind m f = (case m of (Inl e, s) \<Rightarrow> (Inl e, s) | (Inr x, s) \<Rightarrow> f x s)"

definition st_alloc :: "nat \<Rightarrow> store \<Rightarrow> (error + addr) \<times> store" where
  "st_alloc n s = (Inr (length s), s @ [Buffer_alloc n])"

definition st_set_byte :: "addr \<Rightarrow> nat \<Rightarrow> nat \<Rightarrow> store \<Rightarrow> (error + unit) \<times> store" where
  "st_set_byte a i v s = (Inr (), s[a := set_byte (s ! a) i v])"

definition st_writeUInt16LE :: "addr \<Rightarrow> nat \<Rightarrow> nat \<Rightarrow> store \<Rightarrow> (error + unit) \<times> store" where
  "st_writeUInt16LE a v off s =
     (case writeUInt16LE (s ! a) v off of
        Inl e \<Rightarrow> (Inl e, s)
      | Inr b \<Rightarrow> (Inr (), s[a := b]))"

definition st_writeUInt32LE :: "addr \<Rightarrow> nat \<Rightarrow> nat \<Rightarrow> store \<Rightarrow> (error + unit) \<times> store" where
  "st_writeUInt32LE a v off s =
     (case writeUInt32LE (s ! a) v off of
        Inl e \<Rightarrow> (Inl e, s)
      | Inr b \<Rightarrow> (Inr (), s[a := b]))"

definition st_copy :: "addr \<Rightarrow> addr \<Rightarrow> nat \<Rightarrow> store \<Rightarrow> (error + unit) \<times> store" where
  "st_copy source target targetStart s =
     (Inr (), s[target := Buffer_copy (s ! source) (s ! target) targetStart])"

definition st_concat :: "addr list \<Rightarrow> store \<Rightarrow> (error + addr) \<times> store" where
  "st_concat as s = (Inr (length s), s @ [Buffer_concat (map (\<lambda>a. s ! a) as)])"

text \<open>
  \<open>validateAndExtractPngInfo\<close> only reads its buffer: it is the function above on the
  content of the buffer, and keeps the address.
\<close>

definition st_validateAndExtractPngInfo :: "store \<Rightarrow> js_ref \<Rightarrow> nat \<Rightarrow> error + PngImageRef" where
  "st_validateAndExtractPngInfo s r index =
     (case r of
        RBuffer a \<Rightarrow>
          (case validateAndExtractPngInfo (JBuffer (s ! a)) index of
             Inl e \<Rightarrow> Inl e
           | Inr info \<Rightarrow> Inr \<lparr>width = width info, height = height info,
                              size_bytes = size_bytes info, buffer_ref = a\<rparr>)
      | _ \<Rightarrow> Inl (NotABuffer index))"

definition st_createIcoDirectoryEntry :: "PngImageRef \<Rightarrow> nat \<Rightarrow> store \<Rightarrow> (error + addr) \<times> store" where
  "st_createIcoDirectoryEntry imageInfo offset s =
     st_bind (st_alloc DIR_ENTRY_SIZE s) (\<lambda>entry s.
     st_bind (st_set_byte entry 0
                (if width imageInfo = MAX_DIMENSION then 0 else width imageInfo) s) (\<lambda>_ s.
     st_bind (st_set_byte entry 1
                (if height imageInfo = MAX_DIMENSION then 0 else height imageInfo) s) (\<lambda>_ s.
     st_bind (st_set_byte entry 2 0 s) (\<lambda>_ s.
     st_bind (st_set_byte entry 3 0 s) (\<lambda>_ s.
     st_bind (st_writeUInt16LE entry PLANES 4 s) (\<lambda>_ s.
     st_bind (st_writeUInt16LE entry BITS_PER_PIXEL 6 s) (\<lambda>_ s.
     st_bind (st_writeUInt32LE entry (size_bytes imageInfo) 8 s) (\<lambda>_ s.
     st_bind (st_writeUInt32LE entry offset 12 s) (\<lambda>_ s.
       (Inr entry, s))))))))))"

fun st_validate_all :: "store \<Rightarrow> js_ref list \<Rightarrow> nat \<Rightarrow> error + PngImageRef list" where
  "st_validate_all s [] i = Inr []"
| "st_validate_all s (b # bs) i =
     (case st_validateAndExtractPngInfo s b (i + 1) of
        Inl e \<Rightarrow> Inl (FailedToProcess (i + 1) e)
      | Inr info \<Rightarrow> and_then (st_validate_all s bs (i + 1)) (\<lambda>infos. Inr (info # infos)))"

definition st_write_header :: "nat \<Rightarrow> store \<Rightarrow> (error + addr) \<times> store" where
  "st_write_header count s =
     st_bind (st_alloc HEADER_SIZE s) (\<lambda>header s.
     st_bind (st_writeUInt16LE header 0 0 s) (\<lambda>_ s.
     st_bind (st_writeUInt16LE header TYPE_ICO 2 s) (\<lambda>_ s.
     st_bind (st_writeUInt16LE header count 4 s) (\<lambda>_ s.
       (Inr header, s)))))"

fun st_write_entries ::
  "PngImageRef list \<Rightarrow> nat \<Rightarrow> nat \<Rightarrow> addr \<Rightarrow> store \<Rightarrow> (error + unit) \<times> store" where
  "st_write_entries [] i offset dirEntries s = (Inr (), s)"
| "st_write_entries (info # infos) i offset dirEntries s =
     st_bind (st_createIcoDirectoryEntry info offset s) (\<lambda>entry s.
     st_bind (st_copy entry dirEntries (i * DIR_ENTRY_SIZE) s) (\<lambda>_ s.
       st_write_entries infos (i + 1) (offset + size_bytes info) dirEntries s))"

definition st_encodeIco :: "js_ref \<Rightarrow> store \<Rightarrow> (error + addr) \<times> store" where
  "st_encodeIco v s =
     (case v of
        RArray pngBuffers \<Rightarrow>
          if length pngBuffers = 0 then (Inl NoPngBuffers, s)
          else if length pngBuffers > MAX_IMAGES
            then (Inl (TooManyImages (length pngBuffers)), s)
          else
            (case st_validate_all s pngBuffers 0 of
               Inl e \<Rightarrow> (Inl e, s)
             | Inr imageInfos \<Rightarrow>
                 let count = length imageInfos in
                 st_bind (st_write_header count s) (\<lambda>header s.
                 st_bind (st_alloc (DIR_ENTRY_SIZE * count) s) (\<lambda>dirEntries s.
                   let offset = length (s ! header) + length (s ! dirEntries) in
                   st_bind (st_write_entries imageInfos 0 offset dirEntries s) (\<lambda>_ s.
                     st_concat ([header, dirEntries] @ map buffer_ref imageInfos) s))))
      | _ \<Rightarrow> (Inl NotAnArray, s))"

section \<open>The file format, stated independently of the code\<close>

text \<open>
  The fields of the two formats as the format descriptions give them: unsigned integers
  of two or four bytes at an offset, little-endian in ICO and big-endian in PNG.
\<close>

definition le16 :: "buffer \<Rightarrow> nat \<Rightarrow> nat" where
  "le16 buf off = unat (buf ! off) + 256 * unat (buf ! (off + 1))"

definition le32 :: "buffer \<Rightarrow> nat \<Rightarrow> nat" where
  "le32 buf off = unat (buf ! off) + 256 * unat (buf ! (off + 1))
                  + 65536 * unat (buf ! (off + 2)) + 16777216 * unat (buf ! (off + 3))"

definition be32 :: "buffer \<Rightarrow> nat \<Rightarrow> nat" where
  "be32 buf off = 16777216 * unat (buf ! off) + 65536 * unat (buf ! (off + 1))
                  + 256 * unat (buf ! (off + 2)) + unat (buf ! (off + 3))"

text \<open>
  The buffers that pass \<open>validateAndExtractPngInfo\<close>, and what it returns for them
  (lemma \<open>validate_buffer\<close> below).
\<close>

definition well_formed_png :: "buffer \<Rightarrow> bool" where
  "well_formed_png buf \<longleftrightarrow>
     24 \<le> length buf \<and> take 8 buf = PNG_SIGNATURE \<and> be32 buf 8 = 13
     \<and> toString_ascii buf 12 16 = ''IHDR''
     \<and> 0 < be32 buf 16 \<and> be32 buf 16 \<le> 256 \<and> 0 < be32 buf 20 \<and> be32 buf 20 \<le> 256"

definition png_info :: "buffer \<Rightarrow> PngImageInfo" where
  "png_info buf = \<lparr>width = be32 buf 16, height = be32 buf 20, size_bytes = length buf, buffer = buf\<rparr>"

text \<open>What validation returns for the well-formed buffer at address \<open>a\<close>.\<close>

definition ref_info :: "store \<Rightarrow> addr \<Rightarrow> PngImageRef" where
  "ref_info s a = \<lparr>width = be32 (s ! a) 16, height = be32 (s ! a) 20,
                   size_bytes = length (s ! a), buffer_ref = a\<rparr>"

text \<open>What \<open>getIcoInfo\<close> is to report for an image that was encoded.\<close>

definition reported_entry :: "buffer \<Rightarrow> ImageEntry" where
  "reported_entry png = \<lparr>width = be32 png 16, height = be32 png 20, size_bytes = length png\<rparr>"

text \<open>
  The layout of an ICO file: the six header bytes for \<open>n\<close> images, the sixteen bytes of the
  directory entry of an image of the given width, height and size at the given offset, and
  the directory table of a list of images whose first payload starts at \<open>off\<close>.
\<close>

definition header_bytes :: "nat \<Rightarrow> buffer" where
  "header_bytes n = [0, 0, 1, 0, of_nat n, of_nat (n div 256)]"

definition entry_bytes :: "nat \<Rightarrow> nat \<Rightarrow> nat \<Rightarrow> nat \<Rightarrow> buffer" where
  "entry_bytes w h sz off =
     [of_nat (if w = 256 then 0 else w), of_nat (if h = 256 then 0 else h), 0, 0, 1, 0, 32, 0,
      of_nat sz, of_nat (sz div 256), of_nat (sz div 65536), of_nat (sz div 16777216),
      of_nat off, of_nat (off div 256), of_nat (off div 65536), of_nat (off div 16777216)]"

fun dir_table :: "'a ImageEntry_scheme list \<Rightarrow> nat \<Rightarrow> buffer" where
  "dir_table [] off = []"
| "dir_table (info # infos) off =
     entry_bytes (width info) (height info) (size_bytes info) off
     @ dir_table infos (off + size_bytes info)"

text \<open>The offset of the payload of image \<open>k\<close> when the first payload starts at \<open>off\<close>.\<close>

definition entry_offset :: "'a ImageEntry_scheme list \<Rightarrow> nat \<Rightarrow> nat \<Rightarrow> nat" where
  "entry_offset infos off k = off + sum_list (map size_bytes (take k infos))"

text \<open>Every size and every payload offset of the table fits the 32-bit field it is written to.\<close>

fun fits32 :: "'a ImageEntry_scheme list \<Rightarrow> nat \<Rightarrow> bool" where
  "fits32 [] off = True"
| "fits32 (info # infos) off =
     (size_bytes info \<le> 4294967295 \<and> off \<le> 4294967295 \<and> fits32 infos (off + size_bytes info))"

text \<open>The header test of \<open>isValidIco\<close> and the entry that \<open>getIcoInfo\<close> reads at position \<open>i\<close>.\<close>

definition valid_ico_header :: "buffer \<Rightarrow> bool" where
  "valid_ico_header buf \<longleftrightarrow>
     6 \<le> length buf \<and> le16 buf 0 = 0 \<and> (le16 buf 2 = 1 \<or> le16 buf 2 = 2)
     \<and> 0 < le16 buf 4 \<and> le16 buf 4 \<le> 256"

definition stored_dimension :: "byte \<Rightarrow> nat" where
  "stored_dimension b = (if unat b = 0 then 256 else unat b)"

definition decode_entry :: "buffer \<Rightarrow> nat \<Rightarrow> ImageEntry" where
  "decode_entry buf i =
     \<lparr>width = stored_dimension (buf ! (6 + 16 * i)),
      height = stored_dimension (buf ! (6 + 16 * i + 1)),
      size_bytes = le32 buf (6 + 16 * i + 8)\<rparr>"

section \<open>Sample images\<close>

text \<open>
  Three PNG headers: a 16 by 16 image of 24 bytes, a 256 by 256 image of 25 bytes, and the
  first one with the highest bit of each byte of the chunk type set.
\<close>

definition png16 :: buffer where
  "png16 = [0x89, 0x50, 0x4e, 0x47, 0x0d, 0x0a, 0x1a, 0x0a, 0, 0, 0, 13,
            0x49, 0x48, 0x44, 0x52, 0, 0, 0, 16, 0, 0, 0, 16]"

definition png256 :: buffer where
  "png256 = [0x89, 0x50, 0x4e, 0x47, 0x0d, 0x0a, 0x1a, 0x0a, 0, 0, 0, 13,
             0x49, 0x48, 0x44, 0x52, 0, 0, 1, 0, 0, 0, 1, 0, 7]"

definition png_high_bit :: buffer where
  "png_high_bit = [0x89, 0x50, 0x4e, 0x47, 0x0d, 0x0a, 0x1a, 0x0a, 0, 0, 0, 13,
                   0xC9, 0xC8, 0xC4, 0xD2, 0, 0, 0, 16, 0, 0, 0, 16]"


text \<open>
  The first two sample images followed by zero bytes up to a length of \<open>2^32\<close> bytes
  (4 GiB): they still pass validation, and their size no longer fits a 32-bit field.
\<close>

definition png_4GiB :: buffer where
  "png_4GiB = png16 @ replicate 4294967272 0"

definition png256_4GiB :: buffer where
  "png256_4GiB = png256 @ replicate 4294967271 0"

text \<open>The ICO file that holds the first two sample images, in this order.\<close>

definition ico_sample :: buffer where
  "ico_sample = [0, 0, 1, 0, 2, 0,
        16, 16, 0, 0, 1, 0, 32, 0, 24, 0, 0, 0, 38, 0, 0, 0,
        0, 0, 0, 0, 1, 0, 32, 0, 25, 0, 0, 0, 62, 0, 0, 0] @ png16 @ png256"

text \<open>
  A cursor file whose header announces three images and which holds one directory entry,
  of stored width and height 0, and three more bytes.
\<close>

definition ico_truncated :: buffer where
  "ico_truncated = [0, 0, 2, 0, 3, 0,
                    0, 0, 0, 0, 1, 0, 32, 0, 5, 0, 0, 0, 22, 0, 0, 0, 7, 7, 7]"

section \<open>Lemmas\<close>

lemmas ICO_CONSTANTS =
  HEADER_SIZE_def DIR_ENTRY_SIZE_def MAX_IMAGES_def MAX_DIMENSION_def
  TYPE_ICO_def TYPE_CUR_def PLANES_def BITS_PER_PIXEL_def

subsection \<open>Bytes and fields\<close>

lemma unat_of_nat_byte: "unat (of_nat n :: byte) = n mod 256"
  by (simp add: unat_of_nat)

lemma le16_value: "v \<le> 65535 \<Longrightarrow> v mod 256 + 256 * (v div 256 mod 256) = (v::nat)"
proof -
  assume v: "v \<le> 65535"
  have "v mod (256 * 256) = 256 * (v div 256 mod 256) + v mod 256"
    by (rule mod_mult2_eq)
  moreover have "v mod (256 * 256) = v" using v by simp
  ultimately show ?thesis by simp
qed

lemma le32_value:
  "v \<le> 4294967295 \<Longrightarrow>
   v mod 256 + 256 * (v div 256 mod 256) + 65536 * (v div 65536 mod 256)
     + 16777216 * (v div 16777216 mod 256) = (v::nat)"
proof -
  assume v: "v \<le> 4294967295"
  have a: "v mod (256 * 256) = 256 * (v div 256 mod 256) + v mod 256"
    by (rule mod_mult2_eq)
  have b: "v mod (65536 * 256) = 65536 * (v div 65536 mod 256) + v mod 65536"
    by (rule mod_mult2_eq)
  have c: "v mod (16777216 * 256) = 16777216 * (v div 16777216 mod 256) + v mod 16777216"
    by (rule mod_mult2_eq)
  have d: "v mod (16777216 * 256) = v" using v by simp
  from a b c d show ?thesis by simp
qed

lemma alloc16: "replicate 16 (0::byte) = [0,0,0,0,0,0,0,0,0,0,0,0,0,0,0,0]"
  by (simp add: numeral_eq_Suc)

lemma createIcoDirectoryEntry_eq:
  "createIcoDirectoryEntry info off =
     (if size_bytes info > 4294967295 \<or> off > 4294967295 then Inl ERR_OUT_OF_RANGE
      else Inr (entry_bytes (width info) (height info) (size_bytes info) off))"
  by (simp add: createIcoDirectoryEntry_def Buffer_alloc_def set_byte_def and_then_def
      writeUInt16LE_def writeUInt32LE_def ICO_CONSTANTS alloc16 entry_bytes_def)

subsection \<open>Validation\<close>

lemma readUInt32BE_in_range: "off + 4 \<le> length buf \<Longrightarrow> readUInt32BE buf off = Inr (be32 buf off)"
  by (simp add: readUInt32BE_def be32_def)

lemma signature_loop:
  assumes "8 \<le> length buf"
  shows "find (\<lambda>i. byte_at buf i \<noteq> Some (PNG_SIGNATURE ! i)) [0..<length PNG_SIGNATURE] = None
         \<longleftrightarrow> take 8 buf = PNG_SIGNATURE"
proof -
  have len: "length PNG_SIGNATURE = 8" by (simp add: PNG_SIGNATURE_def)
  have "find (\<lambda>i. byte_at buf i \<noteq> Some (PNG_SIGNATURE ! i)) [0..<length PNG_SIGNATURE] = None
        \<longleftrightarrow> (\<forall>i<8. buf ! i = PNG_SIGNATURE ! i)"
    using assms by (auto simp: find_None_iff len byte_at_def)
  also have "\<dots> \<longleftrightarrow> take 8 buf = PNG_SIGNATURE"
    using assms by (auto simp: list_eq_iff_nth_eq len)
  finally show ?thesis .
qed

lemma validate_buffer:
  "validateAndExtractPngInfo (JBuffer buf) idx = Inr info \<longleftrightarrow> well_formed_png buf \<and> info = png_info buf"
proof (cases "24 \<le> length buf")
  case False
  then show ?thesis by (simp add: validateAndExtractPngInfo_def well_formed_png_def)
next
  case True
  then have r: "readUInt32BE buf 8 = Inr (be32 buf 8)" "readUInt32BE buf 16 = Inr (be32 buf 16)"
    "readUInt32BE buf 20 = Inr (be32 buf 20)"
    by (simp_all add: readUInt32BE_in_range)
  from True have s: "find (\<lambda>i. byte_at buf i \<noteq> Some (PNG_SIGNATURE ! i)) [0..<length PNG_SIGNATURE] = None
         \<longleftrightarrow> take 8 buf = PNG_SIGNATURE"
    by (simp add: signature_loop)
  show ?thesis
    using True s
    by (auto simp: validateAndExtractPngInfo_def well_formed_png_def png_info_def r and_then_def
        MAX_DIMENSION_def Let_def split: option.splits)
qed

lemma validate_Inr_iff:
  "validateAndExtractPngInfo v idx = Inr info \<longleftrightarrow>
     (\<exists>buf. v = JBuffer buf \<and> well_formed_png buf \<and> info = png_info buf)"
proof (cases v)
  case (JBuffer buf)
  then show ?thesis by (simp add: validate_buffer)
qed (simp_all add: validateAndExtractPngInfo_def)

lemma validate_all_ok:
  "list_all well_formed_png bufs \<Longrightarrow> validate_all (map JBuffer bufs) i = Inr (map png_info bufs)"
  by (induction bufs arbitrary: i) (simp_all add: validate_buffer[THEN iffD2] and_then_def)

lemma validate_all_Inr_D:
  "validate_all bs i = Inr infos \<Longrightarrow>
     \<exists>bufs. bs = map JBuffer bufs \<and> list_all well_formed_png bufs \<and> infos = map png_info bufs"
proof (induction bs arbitrary: i infos)
  case Nil
  then show ?case by simp
next
  case (Cons b bs)
  from Cons.prems obtain info rest where
    v: "validateAndExtractPngInfo b (i + 1) = Inr info" and
    r: "validate_all bs (i + 1) = Inr rest" and i: "infos = info # rest"
    by (auto simp: and_then_def split: sum.splits)
  from v obtain buf where b: "b = JBuffer buf" "well_formed_png buf" "info = png_info buf"
    by (auto simp: validate_Inr_iff)
  from Cons.IH[OF r] obtain bufs where
    "bs = map JBuffer bufs" "list_all well_formed_png bufs" "rest = map png_info bufs"
    by blast
  with b i have "b # bs = map JBuffer (buf # bufs) \<and> list_all well_formed_png (buf # bufs)
      \<and> infos = map png_info (buf # bufs)"
    by simp
  then show ?case by (rule exI)
qed

lemma validate_all_Inl_D:
  "validate_all bs i = Inl err \<Longrightarrow>
     \<exists>k e. k < length bs \<and> validateAndExtractPngInfo (bs ! k) (i + k + 1) = Inl e
        \<and> (\<forall>j<k. \<exists>info. validateAndExtractPngInfo (bs ! j) (i + j + 1) = Inr info)
        \<and> err = FailedToProcess (i + k + 1) e"
proof (induction bs arbitrary: i)
  case Nil
  then show ?case by simp
next
  case (Cons b bs)
  show ?case
  proof (cases "validateAndExtractPngInfo b (i + 1)")
    case (Inl e)
    with Cons.prems have "err = FailedToProcess (i + 1) e" by simp
    with Inl have "0 < length (b # bs) \<and> validateAndExtractPngInfo ((b # bs) ! 0) (i + 0 + 1) = Inl e
        \<and> (\<forall>j<0. \<exists>info. validateAndExtractPngInfo ((b # bs) ! j) (i + j + 1) = Inr info)
        \<and> err = FailedToProcess (i + 0 + 1) e"
      by simp
    then show ?thesis by blast
  next
    case (Inr info)
    with Cons.prems have "validate_all bs (i + 1) = Inl err"
      by (auto simp: and_then_def split: sum.splits)
    from Cons.IH[OF this] obtain k e where k: "k < length bs"
      "validateAndExtractPngInfo (bs ! k) (i + 1 + k + 1) = Inl e"
      "\<forall>j<k. \<exists>info. validateAndExtractPngInfo (bs ! j) (i + 1 + j + 1) = Inr info"
      "err = FailedToProcess (i + 1 + k + 1) e"
      by blast
    have "\<forall>j<Suc k. \<exists>info. validateAndExtractPngInfo ((b # bs) ! j) (i + j + 1) = Inr info"
    proof (intro allI impI)
      fix j assume "j < Suc k"
      then show "\<exists>info. validateAndExtractPngInfo ((b # bs) ! j) (i + j + 1) = Inr info"
        using Inr k(3) by (cases j) auto
    qed
    with k have "Suc k < length (b # bs)
        \<and> validateAndExtractPngInfo ((b # bs) ! Suc k) (i + Suc k + 1) = Inl e
        \<and> (\<forall>j<Suc k. \<exists>info. validateAndExtractPngInfo ((b # bs) ! j) (i + j + 1) = Inr info)
        \<and> err = FailedToProcess (i + Suc k + 1) e"
      by simp
    then show ?thesis by blast
  qed
qed

lemma validate_all_fails:
  assumes "k < length bs" "validateAndExtractPngInfo (bs ! k) (i + k + 1) = Inl e"
    "\<forall>j<k. \<exists>info. validateAndExtractPngInfo (bs ! j) (i + j + 1) = Inr info"
  shows "validate_all bs i = Inl (FailedToProcess (i + k + 1) e)"
  using assms
proof (induction bs arbitrary: i k)
  case Nil
  then show ?case by simp
next
  case (Cons b bs)
  show ?case
  proof (cases k)
    case 0
    with Cons.prems show ?thesis by simp
  next
    case (Suc k')
    from Cons.prems(3) Suc obtain info where v: "validateAndExtractPngInfo b (i + 1) = Inr info"
      by fastforce
    have a: "k' < length bs" using Cons.prems(1) Suc by simp
    have b: "validateAndExtractPngInfo (bs ! k') (i + 1 + k' + 1) = Inl e"
      using Cons.prems(2) Suc by simp
    have c: "\<forall>j<k'. \<exists>info. validateAndExtractPngInfo (bs ! j) (i + 1 + j + 1) = Inr info"
    proof (intro allI impI)
      fix j assume "j < k'"
      then have "Suc j < k" using Suc by simp
      with Cons.prems(3) show "\<exists>info. validateAndExtractPngInfo (bs ! j) (i + 1 + j + 1) = Inr info"
        by fastforce
    qed
    from Cons.IH[OF a b c] v Suc show ?thesis by (simp add: and_then_def)
  qed
qed

subsection \<open>The encoder in closed form\<close>

lemma alloc6: "replicate 6 (0::byte) = [0,0,0,0,0,0]"
  by (simp add: numeral_eq_Suc)

lemma write_header_eq:
  "write_header n = (if n > 65535 then Inl ERR_OUT_OF_RANGE else Inr (header_bytes n))"
  by (simp add: write_header_def Buffer_alloc_def alloc6 and_then_def writeUInt16LE_def
      ICO_CONSTANTS header_bytes_def)

lemma length_entry_bytes [simp]: "length (entry_bytes w h sz off) = 16"
  by (simp add: entry_bytes_def)

lemma length_header_bytes [simp]: "length (header_bytes n) = 6"
  by (simp add: header_bytes_def)

lemma length_dir_table [simp]: "length (dir_table infos off) = 16 * length infos"
  by (induction infos arbitrary: off) simp_all

lemma Buffer_copy_middle:
  "length src = length mid \<Longrightarrow> Buffer_copy src (pre @ mid @ post) (length pre) = pre @ src @ post"
  by (auto simp: Buffer_copy_def)

lemma write_entries_eq:
  "length pre = i * 16 \<Longrightarrow>
   write_entries infos i off (pre @ replicate (16 * length infos) 0) =
     (if fits32 infos off then Inr (pre @ dir_table infos off) else Inl ERR_OUT_OF_RANGE)"
proof (induction infos arbitrary: i off pre)
  case Nil
  then show ?case by simp
next
  case (Cons info infos)
  let ?e = "entry_bytes (width info) (height info) (size_bytes info) off"
  have split: "replicate (16 * length (info # infos)) (0::byte)
      = replicate 16 0 @ replicate (16 * length infos) 0"
    by (simp add: replicate_add[symmetric])
  have copy: "Buffer_copy ?e (pre @ replicate 16 0 @ replicate (16 * length infos) 0) (i * DIR_ENTRY_SIZE)
      = (pre @ ?e) @ replicate (16 * length infos) 0"
    using Cons.prems Buffer_copy_middle[of ?e "replicate 16 0" pre]
    by (simp add: DIR_ENTRY_SIZE_def)
  have len: "length (pre @ ?e) = (i + 1) * 16" using Cons.prems by simp
  have ih: "write_entries infos (Suc i) (off + size_bytes info)
               (pre @ ?e @ replicate (16 * length infos) 0) =
             (if fits32 infos (off + size_bytes info)
              then Inr (pre @ ?e @ dir_table infos (off + size_bytes info))
              else Inl ERR_OUT_OF_RANGE)"
    using Cons.IH[OF len, of "off + size_bytes info"] by simp
  show ?case
    unfolding split
    by (simp add: createIcoDirectoryEntry_eq and_then_def copy ih)
qed

lemma validate_all_length: "validate_all bs i = Inr infos \<Longrightarrow> length infos = length bs"
  by (auto dest: validate_all_Inr_D)

lemma encodeIco_array:
  "encodeIco (JArray bs) =
     (if bs = [] then Inl NoPngBuffers
      else if length bs > 256 then Inl (TooManyImages (length bs))
      else case validate_all bs 0 of
             Inl e \<Rightarrow> Inl e
           | Inr infos \<Rightarrow>
               if fits32 infos (6 + 16 * length infos)
               then Inr (header_bytes (length infos) @ dir_table infos (6 + 16 * length infos)
                         @ concat (map buffer infos))
               else Inl ERR_OUT_OF_RANGE)"
proof (cases "validate_all bs 0")
  case (Inl e)
  then show ?thesis by (simp add: encodeIco_def and_then_def MAX_IMAGES_def)
next
  case (Inr infos)
  then have len: "length infos = length bs" by (rule validate_all_length)
  have we: "write_entries infos 0 (6 + 16 * length infos) (replicate (16 * length infos) 0) =
     (if fits32 infos (6 + 16 * length infos) then Inr (dir_table infos (6 + 16 * length infos))
      else Inl ERR_OUT_OF_RANGE)"
    using write_entries_eq[of "[]" 0 infos] by simp
  show ?thesis
    using Inr len we
    by (simp add: encodeIco_def and_then_def write_header_eq Buffer_alloc_def Buffer_concat_def
        ICO_CONSTANTS Let_def)
qed

subsection \<open>The decoder in closed form\<close>

lemma readUInt16LE_in_range: "off + 2 \<le> length buf \<Longrightarrow> readUInt16LE buf off = Inr (le16 buf off)"
  by (simp add: readUInt16LE_def le16_def)

lemma readUInt32LE_in_range: "off + 4 \<le> length buf \<Longrightarrow> readUInt32LE buf off = Inr (le32 buf off)"
  by (simp add: readUInt32LE_def le32_def)

lemma isValidIco_buffer: "isValidIco (JBuffer buf) = Inr (valid_ico_header buf)"
  by (simp add: isValidIco_def valid_ico_header_def readUInt16LE_in_range and_then_def ICO_CONSTANTS)

lemma isValidIco_other: "isValidIco (JArray xs) = Inr False" "isValidIco JOther = Inr False"
  by (simp_all add: isValidIco_def)

declare getIcoInfo_loop.simps [simp del]

lemma getIcoInfo_loop_eq:
  "getIcoInfo_loop buf count i imgs =
     Inr (imgs @ map (decode_entry buf) [i..<min count ((length buf - 6) div 16)])"
proof (induction "count - i" arbitrary: i imgs)
  case 0
  then have "\<not> i < count" by simp
  then show ?case by (subst getIcoInfo_loop.simps) simp
next
  case (Suc n)
  then have lt: "i < count" by simp
  show ?case
  proof (cases "6 + i * 16 + 16 > length buf")
    case True
    then have "(length buf - 6) div 16 \<le> i" by simp
    then have "[i..<min count ((length buf - 6) div 16)] = []" by simp
    with True lt show ?thesis
      by (subst getIcoInfo_loop.simps) (simp add: ICO_CONSTANTS)
  next
    case False
    then have "i < (length buf - 6) div 16" by simp
    with lt have "[i..<min count ((length buf - 6) div 16)]
        = i # [i + 1..<min count ((length buf - 6) div 16)]"
      by (simp add: upt_conv_Cons)
    moreover have "readUInt32LE buf (6 + i * 16 + 8) = Inr (le32 buf (6 + i * 16 + 8))"
      using False by (simp add: readUInt32LE_in_range)
    moreover have "n = count - (i + 1)" using Suc.hyps(2) by simp
    note Suc.hyps(1)[OF this]
    ultimately show ?thesis
      using False lt
      by (subst getIcoInfo_loop.simps)
        (simp add: ICO_CONSTANTS and_then_def decode_entry_def stored_dimension_def mult.commute)
  qed
qed

lemma getIcoInfo_buffer:
  "getIcoInfo (JBuffer buf) =
     (if valid_ico_header buf
      then Inr \<lparr>imageCount = le16 buf 4,
                type = (if le16 buf 2 = 1 then ICO else CUR),
                images = map (decode_entry buf) [0..<min (le16 buf 4) ((length buf - 6) div 16)]\<rparr>
      else Inl InvalidIcoFile)"
proof (cases "valid_ico_header buf")
  case False
  then show ?thesis by (simp add: getIcoInfo_def isValidIco_buffer and_then_def)
next
  case True
  then have "6 \<le> length buf" by (simp add: valid_ico_header_def)
  then have "readUInt16LE buf 2 = Inr (le16 buf 2)" "readUInt16LE buf 4 = Inr (le16 buf 4)"
    by (simp_all add: readUInt16LE_in_range)
  with True show ?thesis
    by (simp add: getIcoInfo_def isValidIco_buffer and_then_def getIcoInfo_loop_eq TYPE_ICO_def)
qed

lemma getIcoInfo_other: "getIcoInfo (JArray xs) = Inl InvalidIcoFile" "getIcoInfo JOther = Inl InvalidIcoFile"
  by (simp_all add: getIcoInfo_def isValidIco_other and_then_def)

subsection \<open>Decoding an encoded file\<close>

lemma dir_table_nth:
  "k < length infos \<Longrightarrow> j < 16 \<Longrightarrow>
   dir_table infos off ! (16 * k + j) =
   entry_bytes (width (infos ! k)) (height (infos ! k)) (size_bytes (infos ! k))
     (entry_offset infos off k) ! j"
proof (induction infos arbitrary: k off)
  case Nil
  then show ?case by simp
next
  case (Cons info infos)
  show ?case
  proof (cases k)
    case 0
    with Cons.prems show ?thesis by (simp add: nth_append entry_offset_def)
  next
    case (Suc k')
    with Cons.prems have "k' < length infos" by simp
    from Cons.IH[OF this Cons.prems(2), of "off + size_bytes info"] Suc
    show ?thesis by (simp add: nth_append entry_offset_def add.assoc)
  qed
qed

lemma encoded_nth:
  assumes "k < length infos" "j < 16"
  shows "(header_bytes n @ dir_table infos off @ rest) ! (6 + 16 * k + j) =
         entry_bytes (width (infos ! k)) (height (infos ! k)) (size_bytes (infos ! k))
           (entry_offset infos off k) ! j"
proof -
  have "16 * k + j < 16 * length infos" using assms by simp
  then have "(header_bytes n @ dir_table infos off @ rest) ! (6 + (16 * k + j))
      = dir_table infos off ! (16 * k + j)"
    by (simp add: nth_append)
  with dir_table_nth[OF assms] show ?thesis by (simp add: add.assoc)
qed

lemma stored_dimension_roundtrip:
  "0 < w \<Longrightarrow> w \<le> 256 \<Longrightarrow> stored_dimension (of_nat (if w = 256 then 0 else w)) = w"
  by (simp add: stored_dimension_def unat_of_nat_byte)

lemma le32_entry_size:
  "sz \<le> 4294967295 \<Longrightarrow> le32 (pre @ entry_bytes w h sz off @ post) (length pre + 8) = sz"
  using le32_value[of sz]
  by (simp add: le32_def entry_bytes_def nth_append unat_of_nat_byte)

lemma le32_entry_offset:
  "off \<le> 4294967295 \<Longrightarrow> le32 (pre @ entry_bytes w h sz off @ post) (length pre + 12) = off"
  using le32_value[of off]
  by (simp add: le32_def entry_bytes_def nth_append unat_of_nat_byte)

lemma dir_table_append:
  "dir_table (xs @ ys) off = dir_table xs off @ dir_table ys (off + sum_list (map size_bytes xs))"
  by (induction xs arbitrary: off) (simp_all add: add.assoc)

lemma fits32_append:
  "fits32 (xs @ ys) off \<longleftrightarrow> fits32 xs off \<and> fits32 ys (off + sum_list (map size_bytes xs))"
  by (induction xs arbitrary: off) (simp_all add: add.assoc)

lemma fits32_nth:
  assumes "fits32 infos off" "k < length infos"
  shows "size_bytes (infos ! k) \<le> 4294967295 \<and> entry_offset infos off k \<le> 4294967295"
proof -
  have "infos = take k infos @ infos ! k # drop (Suc k) infos"
    using assms(2) by (simp add: id_take_nth_drop)
  then have "fits32 (take k infos @ infos ! k # drop (Suc k) infos) off"
    using assms(1) by simp
  then show ?thesis by (simp add: fits32_append entry_offset_def)
qed

lemma encoded_split:
  assumes "k < length infos"
  shows "header_bytes n @ dir_table infos off @ rest =
         (header_bytes n @ dir_table (take k infos) off)
         @ entry_bytes (width (infos ! k)) (height (infos ! k)) (size_bytes (infos ! k))
             (entry_offset infos off k)
         @ (dir_table (drop (Suc k) infos) (entry_offset infos off k + size_bytes (infos ! k)) @ rest)"
proof -
  have "dir_table infos off = dir_table (take k infos @ infos ! k # drop (Suc k) infos) off"
    using assms by (simp add: id_take_nth_drop[symmetric])
  then show ?thesis
    by (simp add: dir_table_append entry_offset_def)
qed

lemma decode_entry_at:
  assumes "length pre = 6 + 16 * k" "0 < w" "w \<le> 256" "0 < h" "h \<le> 256" "sz \<le> 4294967295"
  shows "decode_entry (pre @ entry_bytes w h sz off @ post) k = \<lparr>width = w, height = h, size_bytes = sz\<rparr>"
proof -
  have a: "(pre @ entry_bytes w h sz off @ post) ! (6 + 16 * k) = of_nat (if w = 256 then 0 else w)"
    using assms(1) by (simp add: nth_append entry_bytes_def)
  have b: "(pre @ entry_bytes w h sz off @ post) ! (6 + 16 * k + 1) = of_nat (if h = 256 then 0 else h)"
    using assms(1) by (simp add: nth_append entry_bytes_def)
  have c: "le32 (pre @ entry_bytes w h sz off @ post) (6 + 16 * k + 8) = sz"
    using le32_entry_size[OF assms(6), of pre w h off post] assms(1) by simp
  show ?thesis
    unfolding decode_entry_def a b c
    using assms by (simp add: stored_dimension_roundtrip)
qed

lemma header_fields:
  "le16 (header_bytes n @ rest) 0 = 0" "le16 (header_bytes n @ rest) 2 = 1"
  "n \<le> 65535 \<Longrightarrow> le16 (header_bytes n @ rest) 4 = n"
  using le16_value[of n]
  by (simp_all add: le16_def header_bytes_def unat_of_nat_byte)

lemma getIcoInfo_encoded:
  assumes wf: "list_all well_formed_png pngs" and ne: "pngs \<noteq> []" and le: "length pngs \<le> 256"
    and fits: "fits32 (map png_info pngs) (6 + 16 * length pngs)"
  shows "getIcoInfo (JBuffer (header_bytes (length pngs)
            @ dir_table (map png_info pngs) (6 + 16 * length pngs)
            @ rest)) =
         Inr \<lparr>imageCount = length pngs, type = ICO, images = map reported_entry pngs\<rparr>"
proof -
  let ?infos = "map png_info pngs"
  let ?off = "6 + 16 * length pngs"
  let ?rest = rest
  let ?out = "header_bytes (length pngs) @ dir_table ?infos ?off @ ?rest"
  have n: "length pngs \<le> 65535" using le by simp
  have hdr: "le16 ?out 0 = 0" "le16 ?out 2 = 1" "le16 ?out 4 = length pngs"
    using header_fields[of "length pngs" "dir_table ?infos ?off @ ?rest"] n by simp_all
  have len: "length ?out = 6 + 16 * length pngs + length ?rest" by simp
  have valid: "valid_ico_header ?out"
    using ne le by (simp add: valid_ico_header_def hdr del: append_assoc)
  have cnt: "min (length pngs) ((length ?out - 6) div 16) = length pngs"
    by (simp only: len)
  have entries: "map (decode_entry ?out) [0..<length pngs] = map reported_entry pngs"
  proof (rule nth_equalityI)
    show "length (map (decode_entry ?out) [0..<length pngs]) = length (map reported_entry pngs)"
      by simp
  next
    fix k assume "k < length (map (decode_entry ?out) [0..<length pngs])"
    then have k: "k < length pngs" by simp
    then have k': "k < length ?infos" by simp
    from wf k have w: "well_formed_png (pngs ! k)" by (simp add: list_all_length)
    have b: "size_bytes (?infos ! k) \<le> 4294967295"
      using fits32_nth[OF fits k'] by simp
    have "decode_entry ?out k = \<lparr>width = width (?infos ! k), height = height (?infos ! k),
        size_bytes = size_bytes (?infos ! k)\<rparr>"
      unfolding encoded_split[OF k', of "length pngs" ?off ?rest]
      using w b k by (intro decode_entry_at) (simp_all add: png_info_def well_formed_png_def)
    then show "map (decode_entry ?out) [0..<length pngs] ! k = map reported_entry pngs ! k"
      using k by (simp add: png_info_def reported_entry_def)
  qed
  show ?thesis
    unfolding getIcoInfo_buffer hdr cnt entries using valid by simp
qed


subsection \<open>The second encoder in closed form\<close>

lemma signature_words:
  assumes "8 \<le> length buf" "take 8 buf = PNG_SIGNATURE"
  shows "be32 buf 0 = 0x89504e47" "be32 buf 4 = 0x0d0a1a0a"
proof -
  have "\<forall>i<8. buf ! i = PNG_SIGNATURE ! i"
    using assms by (metis nth_take)
  then show "be32 buf 0 = 0x89504e47" "be32 buf 4 = 0x0d0a1a0a"
    by (simp_all add: be32_def PNG_SIGNATURE_def)
qed

lemma png_info_sel [simp]:
  "width (png_info b) = be32 b 16" "height (png_info b) = be32 b 20"
  "size_bytes (png_info b) = length b" "buffer (png_info b) = b"
  by (simp_all add: png_info_def)

lemma and_then_Inr: "and_then (Inr x) f = f x"
  by (simp add: and_then_def)

lemma alt_write_entry:
  assumes "length pre = i * 16"
  shows "and_then (writeUInt16LE
            (set_byte (set_byte (set_byte (set_byte (pre @ replicate 16 0 @ post)
               (i * 16 + 0) (if w = 256 then 0 else w))
               (i * 16 + 1) (if h = 256 then 0 else h)) (i * 16 + 2) 0) (i * 16 + 3) 0)
            1 (i * 16 + 4)) (\<lambda>d.
         and_then (writeUInt16LE d 32 (i * 16 + 6)) (\<lambda>d.
         and_then (writeUInt32LE d sz (i * 16 + 8)) (\<lambda>d.
         and_then (writeUInt32LE d off (i * 16 + 12)) f)))
       = (if sz > 4294967295 \<or> off > 4294967295 then Inl ERR_OUT_OF_RANGE
          else f (pre @ entry_bytes w h sz off @ post))"
  unfolding assms[symmetric] alloc16
  by (simp add: set_byte_def writeUInt16LE_def writeUInt32LE_def and_then_def list_update_append
      entry_bytes_def)

lemma alt_signature_check:
  assumes "readUInt32BE buf 0 = Inr 0x89504e47" "readUInt32BE buf 4 = Inr 0x0d0a1a0a"
  shows "and_then (readUInt32BE buf 0) (\<lambda>sig0.
           and_then (if sig0 \<noteq> 0x89504e47 then Inr True
                     else and_then (readUInt32BE buf 4) (\<lambda>sig1. Inr (sig1 \<noteq> 0x0d0a1a0a))) g)
         = g False"
  by (simp add: assms and_then_def)

lemma alt_entries_eq:
  "length pre = i * 16 \<Longrightarrow> list_all well_formed_png bufs \<Longrightarrow>
   alt_entries bufs i off (pre @ replicate (16 * length bufs) 0) =
     (if fits32 (map png_info bufs) off then Inr (pre @ dir_table (map png_info bufs) off)
      else Inl ERR_OUT_OF_RANGE)"
proof (induction bufs arbitrary: i off pre)
  case Nil
  then show ?case by simp
next
  case (Cons buf bufs)
  let ?e = "entry_bytes (be32 buf 16) (be32 buf 20) (length buf) off"
  from Cons.prems have wf: "well_formed_png buf" and wfs: "list_all well_formed_png bufs" by simp_all
  then have len24: "24 \<le> length buf" and sig: "take 8 buf = PNG_SIGNATURE"
    by (simp_all add: well_formed_png_def)
  have sigs: "readUInt32BE buf 0 = Inr 0x89504e47" "readUInt32BE buf 4 = Inr 0x0d0a1a0a"
    using len24 signature_words[OF _ sig] by (simp_all add: readUInt32BE_in_range)
  have reads: "readUInt32BE buf 16 = Inr (be32 buf 16)" "readUInt32BE buf 20 = Inr (be32 buf 20)"
    using len24 by (simp_all add: readUInt32BE_in_range)
  have split: "replicate (16 * length (buf # bufs)) (0::byte)
      = replicate 16 0 @ replicate (16 * length bufs) 0"
    by (simp add: replicate_add[symmetric])
  have len: "length (pre @ ?e) = (i + 1) * 16" using Cons.prems by simp
  have ih: "alt_entries bufs (i + 1) (off + length buf)
               (pre @ ?e @ replicate (16 * length bufs) 0) =
             (if fits32 (map png_info bufs) (off + length buf)
              then Inr (pre @ ?e @ dir_table (map png_info bufs) (off + length buf))
              else Inl ERR_OUT_OF_RANGE)"
    using Cons.IH[OF len wfs, of "off + length buf"] by simp
  have step: "alt_entries (buf # bufs) i off (pre @ replicate 16 0 @ replicate (16 * length bufs) 0)
      = (if length buf > 4294967295 \<or> off > 4294967295 then Inl ERR_OUT_OF_RANGE
         else alt_entries bufs (i + 1) (off + length buf)
                (pre @ ?e @ replicate (16 * length bufs) 0))"
    unfolding alt_entries.simps alt_signature_check[OF sigs] reads and_then_Inr if_False Let_def
      alt_write_entry[OF Cons.prems(1)]
    by (rule refl)
  show ?case
    unfolding split step ih
    by simp
qed

lemma alt_header:
  "and_then (writeUInt16LE (Buffer_alloc 6) 0 0) (\<lambda>header.
   and_then (writeUInt16LE header 1 2) (\<lambda>header.
   and_then (writeUInt16LE header count 4) f))
   = (if count > 65535 then Inl ERR_OUT_OF_RANGE else f (header_bytes count))"
  by (simp add: Buffer_alloc_def alloc6 writeUInt16LE_def and_then_def header_bytes_def)

lemma encodeIco_alt_eq:
  assumes "list_all well_formed_png pngs" "length pngs \<le> 65535"
  shows "encodeIco_alt pngs =
     (if fits32 (map png_info pngs) (6 + 16 * length pngs)
      then Inr (header_bytes (length pngs) @ dir_table (map png_info pngs) (6 + 16 * length pngs)
                @ concat pngs)
      else Inl ERR_OUT_OF_RANGE)"
proof -
  have ae: "alt_entries pngs 0 (6 + 16 * length pngs) (replicate (16 * length pngs) 0) =
     (if fits32 (map png_info pngs) (6 + 16 * length pngs)
      then Inr (dir_table (map png_info pngs) (6 + 16 * length pngs))
      else Inl ERR_OUT_OF_RANGE)"
    using alt_entries_eq[of "[]" 0 pngs] assms(1) by simp
  show ?thesis
    unfolding encodeIco_alt_def Let_def alt_header
    using assms(2) ae
    by (simp add: Buffer_alloc_def and_then_def Buffer_concat_def)
qed

subsection \<open>When the encoder returns, and the sample images\<close>

lemma ascii_IHDR:
  "char_of (73::nat) = CHR ''I''" "char_of (72::nat) = CHR ''H''"
  "char_of (68::nat) = CHR ''D''" "char_of (82::nat) = CHR ''R''"
  by (simp_all add: char_of_def bit_0)

lemma ascii_png16: "toString_ascii png16 12 16 = ''IHDR''"
  by (simp add: toString_ascii_def png16_def ascii_IHDR)

lemma wf16: "well_formed_png png16"
  by (simp add: well_formed_png_def ascii_png16) (simp add: png16_def PNG_SIGNATURE_def be32_def)

lemma wf256: "well_formed_png png256"
  by (simp add: well_formed_png_def toString_ascii_def png256_def PNG_SIGNATURE_def be32_def ascii_IHDR)

lemma validate_all_buffers:
  "validate_all (map JBuffer pngs) i = Inr infos \<longleftrightarrow>
     list_all well_formed_png pngs \<and> infos = map png_info pngs"
proof (induction pngs arbitrary: i infos)
  case Nil
  then show ?case by auto
next
  case (Cons p ps)
  show ?case
  proof (cases "well_formed_png p")
    case True
    then have "validateAndExtractPngInfo (JBuffer p) (i + 1) = Inr (png_info p)"
      by (simp add: validate_buffer)
    then show ?thesis
      using True Cons.IH[of "i + 1"]
      by (cases "validate_all (map JBuffer ps) (Suc i)") (auto simp: and_then_def)
  next
    case False
    then have "\<exists>e. validateAndExtractPngInfo (JBuffer p) (i + 1) = Inl e"
      using validate_buffer[of p "i + 1"]
      by (cases "validateAndExtractPngInfo (JBuffer p) (i + 1)") auto
    with False show ?thesis by auto
  qed
qed

lemma encodeIco_Inr_iff:
  "encodeIco (JArray (map JBuffer pngs)) = Inr out \<longleftrightarrow>
     pngs \<noteq> [] \<and> length pngs \<le> 256 \<and> list_all well_formed_png pngs
     \<and> fits32 (map png_info pngs) (6 + 16 * length pngs)
     \<and> out = header_bytes (length pngs) @ dir_table (map png_info pngs) (6 + 16 * length pngs)
             @ concat pngs"
proof (cases "validate_all (map JBuffer pngs) 0")
  case (Inl e)
  then have "\<not> list_all well_formed_png pngs"
    using validate_all_buffers[of pngs 0 "map png_info pngs"] by auto
  with Inl show ?thesis by (simp add: encodeIco_array)
next
  case (Inr infos)
  then have "list_all well_formed_png pngs" "infos = map png_info pngs"
    by (simp_all add: validate_all_buffers)
  with Inr show ?thesis
    by (auto simp: encodeIco_array comp_def)
qed

lemma encodeIco_Inr_buffers:
  assumes "encodeIco v = Inr out"
  shows "\<exists>pngs. v = JArray (map JBuffer pngs)"
proof (cases v)
  case (JArray bs)
  with assms obtain infos where "validate_all bs 0 = Inr infos"
    by (auto simp: encodeIco_array split: if_splits sum.splits)
  with JArray show ?thesis by (auto dest: validate_all_Inr_D)
qed (use assms in \<open>simp_all add: encodeIco_def\<close>)

text \<open>
  \<open>encodeIco\<close> returns for every batch of 1 to 256 well-formed images whose file, header
  and directory included, has at most \<open>2^32 - 1\<close> bytes.
\<close>

lemma fits32_total:
  "off + sum_list (map size_bytes infos) \<le> 4294967295 \<Longrightarrow> fits32 infos off"
  by (induction infos arbitrary: off) (simp_all add: add.assoc)

lemma encodeIco_returns:
  assumes "pngs \<noteq> []" and "length pngs \<le> 256" and "list_all well_formed_png pngs"
    and "6 + 16 * length pngs + sum_list (map length pngs) \<le> 4294967295"
  shows "\<exists>out. encodeIco (JArray (map JBuffer pngs)) = Inr out"
proof -
  have "fits32 (map png_info pngs) (6 + 16 * length pngs)"
    using assms(4) by (intro fits32_total) (simp add: comp_def)
  with assms(1-3) show ?thesis by (simp add: encodeIco_Inr_iff)
qed

lemma entry_offset_png_info:
  "entry_offset (map png_info pngs) off k = off + sum_list (map length (take k pngs))"
  by (simp add: entry_offset_def take_map comp_def)

lemma sample_dims:
  "be32 png16 16 = 16" "be32 png16 20 = 16" "length png16 = 24"
  "be32 png256 16 = 256" "be32 png256 20 = 256" "length png256 = 25"
  by (simp_all add: png16_def png256_def be32_def)

lemma encodeIco_sample: "encodeIco (JArray (map JBuffer [png16, png256])) = Inr ico_sample"
  unfolding encodeIco_Inr_iff
  by (simp add: wf16 wf256 header_bytes_def entry_bytes_def ico_sample_def sample_dims)

lemma validate_samples:
  "validateAndExtractPngInfo (JBuffer png16) i = Inr (png_info png16)"
  "validateAndExtractPngInfo (JBuffer png256) i = Inr (png_info png256)"
  by (simp_all add: validate_buffer wf16 wf256)

lemma validate_Inl_not_well_formed:
  assumes "validateAndExtractPngInfo (JBuffer b) i = Inl e"
  shows "\<not> well_formed_png b"
  using assms validate_buffer[of b i "png_info b"] by auto

lemma validate_all_no_output:
  assumes "k < length bufs" "validateAndExtractPngInfo (bufs ! k) (k + 1) = Inl e"
  shows "validate_all bufs 0 \<noteq> Inr infos"
proof
  assume "validate_all bufs 0 = Inr infos"
  then obtain pngs where p: "bufs = map JBuffer pngs" "list_all well_formed_png pngs"
    by (auto dest: validate_all_Inr_D)
  with assms(1) have "bufs ! k = JBuffer (pngs ! k)" "well_formed_png (pngs ! k)"
    by (simp_all add: list_all_length)
  with assms(2) show False by (auto dest: validate_Inl_not_well_formed)
qed

lemma getIcoInfo_Inr_D:
  assumes "getIcoInfo (JBuffer b) = Inr r"
  shows "images r = map (decode_entry b) [0..<min (le16 b 4) ((length b - 6) div 16)]"
  using assms by (auto simp: getIcoInfo_buffer split: if_splits)

lemma getIcoInfo_sample:
  "getIcoInfo (JBuffer ico_sample) =
     Inr \<lparr>imageCount = 2, type = ICO,
          images = [\<lparr>width = 16, height = 16, size_bytes = 24\<rparr>,
                    \<lparr>width = 256, height = 256, size_bytes = 25\<rparr>]\<rparr>"
proof -
  have "list_all well_formed_png [png16, png256]" by (simp add: wf16 wf256)
  moreover have "fits32 (map png_info [png16, png256]) (6 + 16 * length [png16, png256])"
    by (simp add: sample_dims)
  ultimately have "getIcoInfo (JBuffer (header_bytes (length [png16, png256])
            @ dir_table (map png_info [png16, png256]) (6 + 16 * length [png16, png256])
            @ concat [png16, png256])) =
         Inr \<lparr>imageCount = length [png16, png256], type = ICO,
              images = map reported_entry [png16, png256]\<rparr>"
    by (intro getIcoInfo_encoded) simp_all
  moreover have "header_bytes (length [png16, png256])
            @ dir_table (map png_info [png16, png256]) (6 + 16 * length [png16, png256])
            @ concat [png16, png256] = ico_sample"
    by (simp add: header_bytes_def entry_bytes_def ico_sample_def sample_dims)
  ultimately show ?thesis by (simp add: reported_entry_def sample_dims)
qed

lemma unat_byte_eq_0: "unat (x::byte) = 0 \<longleftrightarrow> x = 0"
  by (simp add: unat_eq_0)

lemma fits32_iff:
  "fits32 infos off \<longleftrightarrow>
     (\<forall>k<length infos. size_bytes (infos ! k) \<le> 4294967295
                        \<and> entry_offset infos off k \<le> 4294967295)"
proof (induction infos arbitrary: off)
  case Nil
  then show ?case by simp
next
  case (Cons info infos)
  have eS: "\<And>k. entry_offset (info # infos) off (Suc k)
      = entry_offset infos (off + size_bytes info) k"
    by (simp add: entry_offset_def add.assoc)
  have e0: "entry_offset (info # infos) off 0 = off" by (simp add: entry_offset_def)
  have "fits32 (info # infos) off \<longleftrightarrow>
      size_bytes info \<le> 4294967295 \<and> off \<le> 4294967295
      \<and> (\<forall>k<length infos. size_bytes (infos ! k) \<le> 4294967295
             \<and> entry_offset infos (off + size_bytes info) k \<le> 4294967295)"
    by (simp add: Cons.IH)
  also have "\<dots> \<longleftrightarrow>
      (\<forall>k<length (info # infos). size_bytes ((info # infos) ! k) \<le> 4294967295
          \<and> entry_offset (info # infos) off k \<le> 4294967295)"
    by (simp add: All_less_Suc2 e0 eS)
  finally show ?case .
qed

lemma length_png_4GiB: "length png_4GiB = 4294967296"
  by (simp add: png_4GiB_def sample_dims)

lemma wf_4GiB: "well_formed_png png_4GiB"
proof -
  have "take 24 png_4GiB = png16" by (simp add: png_4GiB_def sample_dims)
  have n: "\<And>i. i < 24 \<Longrightarrow> png_4GiB ! i = png16 ! i"
    by (simp add: png_4GiB_def nth_append sample_dims)
  have "take 8 png_4GiB = take 8 png16" by (simp add: png_4GiB_def sample_dims)
  moreover have "toString_ascii png_4GiB 12 16 = toString_ascii png16 12 16"
    by (simp add: toString_ascii_def png_4GiB_def sample_dims)
  moreover have "be32 png_4GiB 8 = be32 png16 8" "be32 png_4GiB 16 = be32 png16 16"
    "be32 png_4GiB 20 = be32 png16 20"
    by (simp_all add: be32_def n)
  ultimately show ?thesis
    using wf16 by (simp add: well_formed_png_def length_png_4GiB)
qed

lemma length_png256_4GiB: "length png256_4GiB = 4294967296"
  by (simp add: png256_4GiB_def sample_dims)

lemma wf256_4GiB: "well_formed_png png256_4GiB"
proof -
  have n: "\<And>i. i < 24 \<Longrightarrow> png256_4GiB ! i = png256 ! i"
    by (simp add: png256_4GiB_def nth_append sample_dims)
  have "take 8 png256_4GiB = take 8 png256" by (simp add: png256_4GiB_def sample_dims)
  moreover have "toString_ascii png256_4GiB 12 16 = toString_ascii png256 12 16"
    by (simp add: toString_ascii_def png256_4GiB_def sample_dims)
  moreover have "be32 png256_4GiB 8 = be32 png256 8" "be32 png256_4GiB 16 = be32 png256 16"
    "be32 png256_4GiB 20 = be32 png256 20"
    by (simp_all add: be32_def n)
  ultimately show ?thesis
    using wf256 by (simp add: well_formed_png_def length_png256_4GiB)
qed

lemma png_4GiB_dims:
  "be32 png_4GiB 16 = 16" "be32 png_4GiB 20 = 16"
  "be32 png256_4GiB 16 = 256" "be32 png256_4GiB 20 = 256"
  by (simp_all add: be32_def png_4GiB_def png256_4GiB_def nth_append sample_dims)
    (simp_all add: png16_def png256_def)

lemma encodeIco_4GiB:
  assumes "well_formed_png png" and "length png = 4294967296"
  shows "encodeIco (JArray [JBuffer png]) = Inl ERR_OUT_OF_RANGE"
proof -
  have "validate_all [JBuffer png] 0 = Inr [png_info png]"
    using validate_all_ok[of "[png]" 0] assms(1) by simp
  then show ?thesis by (simp add: encodeIco_array assms(2))
qed

subsection \<open>The encoder on a store\<close>

lemma ref_info_sel [simp]:
  "width (ref_info s a) = be32 (s ! a) 16" "height (ref_info s a) = be32 (s ! a) 20"
  "size_bytes (ref_info s a) = length (s ! a)" "buffer_ref (ref_info s a) = a"
  by (simp_all add: ref_info_def)

lemma st_validate_buffer:
  "st_validateAndExtractPngInfo s (RBuffer a) i =
     (case validateAndExtractPngInfo (JBuffer (s ! a)) i of
        Inl e \<Rightarrow> Inl e | Inr info \<Rightarrow> Inr (ref_info s a))"
proof (cases "validateAndExtractPngInfo (JBuffer (s ! a)) i")
  case (Inl e)
  then show ?thesis by (simp add: st_validateAndExtractPngInfo_def)
next
  case (Inr info)
  then have "info = png_info (s ! a)" by (simp add: validate_buffer)
  with Inr show ?thesis by (simp add: st_validateAndExtractPngInfo_def ref_info_def)
qed

lemma st_validate_other:
  "st_validateAndExtractPngInfo s (RArray rs) i = Inl (NotABuffer i)"
  "st_validateAndExtractPngInfo s ROther i = Inl (NotABuffer i)"
  "validateAndExtractPngInfo (JArray xs) i = Inl (NotABuffer i)"
  "validateAndExtractPngInfo JOther i = Inl (NotABuffer i)"
  by (simp_all add: st_validateAndExtractPngInfo_def validateAndExtractPngInfo_def)

lemma st_validate_all_sim:
  "st_validate_all s rs i =
     (case validate_all (map (fetch s) rs) i of
        Inl e \<Rightarrow> Inl e
      | Inr infos \<Rightarrow> Inr (map (\<lambda>r. case r of RBuffer a \<Rightarrow> ref_info s a) rs))"
proof (induction rs arbitrary: i)
  case Nil
  then show ?case by simp
next
  case (Cons r rs)
  show ?case
    by (cases r)
      (auto simp: st_validate_buffer st_validate_other Cons.IH and_then_def split: sum.splits)
qed

lemma st_bind_simps [simp]:
  "st_bind (Inl e, s) f = (Inl e, s)" "st_bind (Inr x, s) f = f x s"
  by (simp_all add: st_bind_def)

lemma st_createIcoDirectoryEntry_eq:
  "\<exists>x. st_createIcoDirectoryEntry info off S =
         ((if size_bytes info > 4294967295 \<or> off > 4294967295 then Inl ERR_OUT_OF_RANGE
           else Inr (length S)), S @ [x])
       \<and> (\<not> (size_bytes info > 4294967295 \<or> off > 4294967295) \<longrightarrow>
            x = entry_bytes (width info) (height info) (size_bytes info) off)"
  by (simp add: st_createIcoDirectoryEntry_def st_alloc_def st_set_byte_def st_writeUInt16LE_def
      st_writeUInt32LE_def Buffer_alloc_def set_byte_def writeUInt16LE_def writeUInt32LE_def
      ICO_CONSTANTS alloc16 entry_bytes_def)

lemma st_write_header_eq:
  "\<exists>x. st_write_header n S =
         ((if n > 65535 then Inl ERR_OUT_OF_RANGE else Inr (length S)), S @ [x])
       \<and> (n \<le> 65535 \<longrightarrow> x = header_bytes n)"
  by (simp add: st_write_header_def st_alloc_def st_writeUInt16LE_def
      Buffer_alloc_def writeUInt16LE_def ICO_CONSTANTS alloc6 header_bytes_def)

lemma st_write_entries_eq:
  assumes "d < length S" "S ! d = pre @ replicate (16 * length infos) 0" "length pre = i * 16"
  shows "\<exists>S'. st_write_entries infos i off d S =
            ((if fits32 infos off then Inr () else Inl ERR_OUT_OF_RANGE), S')
          \<and> length S \<le> length S'
          \<and> (\<forall>a<length S. a \<noteq> d \<longrightarrow> S' ! a = S ! a)
          \<and> (fits32 infos off \<longrightarrow> S' ! d = pre @ dir_table infos off)"
  using assms
proof (induction infos arbitrary: S i off pre)
  case Nil
  then show ?case by simp
next
  case (Cons info infos)
  let ?bad = "size_bytes info > 4294967295 \<or> off > 4294967295"
  let ?e = "entry_bytes (width info) (height info) (size_bytes info) off"
  from st_createIcoDirectoryEntry_eq[of info off S] obtain x where
    c: "st_createIcoDirectoryEntry info off S =
          ((if ?bad then Inl ERR_OUT_OF_RANGE else Inr (length S)), S @ [x])"
    and x: "\<not> ?bad \<longrightarrow> x = ?e"
    by blast
  show ?case
  proof (cases ?bad)
    case True
    then have "st_write_entries (info # infos) i off d S = (Inl ERR_OUT_OF_RANGE, S @ [x])"
      by (simp add: c)
    moreover have "\<not> fits32 (info # infos) off" using True by auto
    ultimately show ?thesis by (auto simp: nth_append)
  next
    case False
    with x have xe: "x = ?e" by simp
    let ?S2 = "(S @ [?e])[d := pre @ ?e @ replicate (16 * length infos) 0]"
    have split: "replicate (16 * length (info # infos)) (0::byte)
        = replicate 16 0 @ replicate (16 * length infos) 0"
      by (simp add: replicate_add[symmetric])
    have sd: "S ! d = pre @ replicate 16 0 @ replicate (16 * length infos) 0"
      using Cons.prems(2) unfolding split .
    have copy: "Buffer_copy ?e (pre @ replicate 16 0 @ replicate (16 * length infos) 0) (i * 16)
        = pre @ ?e @ replicate (16 * length infos) 0"
      using Cons.prems(3) Buffer_copy_middle[of ?e "replicate 16 0" pre] by simp
    have step: "st_write_entries (info # infos) i off d S
        = st_write_entries infos (i + 1) (off + size_bytes info) d ?S2"
      using False Cons.prems(1)
      by (simp add: c xe st_copy_def nth_append sd copy DIR_ENTRY_SIZE_def)
    have d2: "d < length ?S2" using Cons.prems(1) by simp
    have c2: "?S2 ! d = (pre @ ?e) @ replicate (16 * length infos) 0"
      using Cons.prems(1) by simp
    have l2: "length (pre @ ?e) = (i + 1) * 16" using Cons.prems(3) by simp
    from Cons.IH[OF d2 c2 l2, of "off + size_bytes info"] obtain S' where
      r: "st_write_entries infos (i + 1) (off + size_bytes info) d ?S2 =
            ((if fits32 infos (off + size_bytes info) then Inr () else Inl ERR_OUT_OF_RANGE), S')"
      and len: "length ?S2 \<le> length S'"
      and frame: "\<forall>a<length ?S2. a \<noteq> d \<longrightarrow> S' ! a = ?S2 ! a"
      and tab: "fits32 infos (off + size_bytes info) \<longrightarrow>
                  S' ! d = (pre @ ?e) @ dir_table infos (off + size_bytes info)"
      by blast
    have "st_write_entries (info # infos) i off d S =
            ((if fits32 (info # infos) off then Inr () else Inl ERR_OUT_OF_RANGE), S')"
      unfolding step r using False by simp
    moreover have "length S \<le> length S'" using len by simp
    moreover have "\<forall>a<length S. a \<noteq> d \<longrightarrow> S' ! a = S ! a"
      using frame by (simp add: nth_append)
    moreover have "fits32 (info # infos) off \<longrightarrow> S' ! d = pre @ dir_table (info # infos) off"
      using tab by simp
    ultimately show ?thesis by blast
  qed
qed

lemma dir_table_ref_info:
  "dir_table (map (ref_info s) as) off = dir_table (map (\<lambda>a. png_info (s ! a)) as) off"
  by (induction as arbitrary: off) simp_all

lemma fits32_ref_info:
  "fits32 (map (ref_info s) as) off = fits32 (map (\<lambda>a. png_info (s ! a)) as) off"
  by (induction as arbitrary: off) simp_all

lemma all_buffers:
  assumes "validate_all (map (fetch s) rs) i = Inr infos"
  shows "\<exists>as. rs = map RBuffer as"
  using assms
proof (induction rs arbitrary: i infos)
  case Nil
  then show ?case by simp
next
  case (Cons r rs)
  from Cons.prems obtain info rest where
    v: "validateAndExtractPngInfo (fetch s r) (i + 1) = Inr info"
    and r: "validate_all (map (fetch s) rs) (i + 1) = Inr rest"
    by (auto simp: and_then_def split: sum.splits)
  from v obtain a where "r = RBuffer a"
    by (cases r) (simp_all add: st_validate_other)
  moreover from Cons.IH[OF r] obtain as where "rs = map RBuffer as" by blast
  ultimately have "r # rs = map RBuffer (a # as)" by simp
  then show ?case by (rule exI)
qed

lemma st_encodeIco_buffers:
  assumes alloc: "list_all (\<lambda>a. a < length s) as" and ne: "as \<noteq> []" and le: "length as \<le> 256"
    and wf: "list_all well_formed_png (map (\<lambda>a. s ! a) as)"
  shows "\<exists>S'. length s < length S' \<and> (\<forall>a<length s. S' ! a = s ! a)
           \<and> st_encodeIco (RArray (map RBuffer as)) s =
               (case encodeIco (JArray (map JBuffer (map (\<lambda>a. s ! a) as))) of
                  Inl e \<Rightarrow> (Inl e, S')
                | Inr out \<Rightarrow> (Inr (length S'), S' @ [out]))"
proof -
  let ?pngs = "map (\<lambda>a. s ! a) as"
  let ?n = "length as"
  let ?refs = "map (ref_info s) as"
  let ?off = "6 + 16 * ?n"
  let ?h = "length s"
  let ?d = "Suc (length s)"
  let ?S2 = "s @ [header_bytes ?n, replicate (16 * ?n) 0]"
  note va' = validate_all_ok[OF wf, of 0]
  have va: "validate_all (map (fetch s) (map RBuffer as)) 0 = Inr (map png_info ?pngs)"
    using va' by (simp add: comp_def)
  have sv: "st_validate_all s (map RBuffer as) 0 = Inr ?refs"
    unfolding st_validate_all_sim va by (simp add: comp_def)
  from st_write_header_eq[of ?n s] le
  have hd: "st_write_header ?n s = (Inr ?h, s @ [header_bytes ?n])" by auto
  have d: "?d < length ?S2" by simp
  have c: "?S2 ! ?d = [] @ replicate (16 * length ?refs) 0" by (simp add: nth_append)
  from st_write_entries_eq[OF d c, of 0 ?off] obtain S3 where
    we: "st_write_entries ?refs 0 ?off ?d ?S2 =
           ((if fits32 ?refs ?off then Inr () else Inl ERR_OUT_OF_RANGE), S3)"
    and len: "length ?S2 \<le> length S3"
    and frame: "\<forall>a<length ?S2. a \<noteq> ?d \<longrightarrow> S3 ! a = ?S2 ! a"
    and tab: "fits32 ?refs ?off \<longrightarrow> S3 ! ?d = [] @ dir_table ?refs ?off"
    by auto
  have keep: "\<forall>a<length s. S3 ! a = s ! a"
    using frame by (simp add: nth_append)
  have hdr: "S3 ! ?h = header_bytes ?n"
    using frame by (simp add: nth_append)
  have run: "st_encodeIco (RArray (map RBuffer as)) s =
      st_bind (st_write_entries ?refs 0 ?off ?d ?S2) (\<lambda>_ s'.
        st_concat ([?h, ?d] @ map buffer_ref ?refs) s')"
    using ne le
    by (simp add: st_encodeIco_def sv hd st_alloc_def Buffer_alloc_def ICO_CONSTANTS
        nth_append Let_def)
  have fits: "fits32 ?refs ?off = fits32 (map png_info ?pngs) (6 + 16 * length ?pngs)"
    by (simp add: fits32_ref_info comp_def)
  show ?thesis
  proof (cases "fits32 ?refs ?off")
    case False
    then have "encodeIco (JArray (map JBuffer ?pngs)) = Inl ERR_OUT_OF_RANGE"
      using ne le fits
      by (simp add: encodeIco_array va' del: map_map)
    moreover have "st_encodeIco (RArray (map RBuffer as)) s = (Inl ERR_OUT_OF_RANGE, S3)"
      using False by (simp add: run we)
    moreover have "length s < length S3" using len by simp
    ultimately show ?thesis using keep by auto
  next
    case True
    have payload: "map (\<lambda>a. S3 ! a) as = ?pngs"
      using alloc keep by (simp add: list_all_iff)
    have tab': "S3 ! ?d = dir_table (map png_info ?pngs) ?off"
      using tab True by (simp add: dir_table_ref_info comp_def)
    let ?out = "header_bytes ?n @ dir_table (map png_info ?pngs) ?off @ concat ?pngs"
    have "encodeIco (JArray (map JBuffer ?pngs)) = Inr ?out"
      using True fits ne le wf encodeIco_Inr_iff[of ?pngs ?out] by simp
    moreover have "st_encodeIco (RArray (map RBuffer as)) s = (Inr (length S3), S3 @ [?out])"
      using True
      by (simp add: run we st_concat_def Buffer_concat_def hdr tab' payload comp_def)
    moreover have "length s < length S3" using len by simp
    ultimately show ?thesis using keep by auto
  qed
qed

section \<open>The claims\<close>

text \<open>
  C1, as stated (every sequence of 1 to 256 well-formed buffers), is false: the 4 GiB
  sample passes validation with width and height 16, and \<open>encodeIco\<close> on it alone throws
  the \<open>RangeError\<close> of \<open>writeUInt32LE\<close>, so there is no output to decode.
\<close>

theorem roundtrip_counterexample:
  "validateAndExtractPngInfo (JBuffer png_4GiB) 1 =
     Inr \<lparr>width = 16, height = 16, size_bytes = 4294967296, buffer = png_4GiB\<rparr>
   \<and> encodeIco (JArray [JBuffer png_4GiB]) = Inl ERR_OUT_OF_RANGE"
proof -
  have "validateAndExtractPngInfo (JBuffer png_4GiB) 1 =
     Inr \<lparr>width = 16, height = 16, size_bytes = 4294967296, buffer = png_4GiB\<rparr>"
    by (simp add: validate_buffer wf_4GiB png_info_def png_4GiB_dims length_png_4GiB)
  with encodeIco_4GiB[OF wf_4GiB length_png_4GiB] show ?thesis by simp
qed

text \<open>
  C1, amended. For \<open>N\<close> PNG buffers that pass validation, \<open>1 \<le> N \<le> 256\<close>, each of width and
  height in \<open>(0, 256]\<close>, such that the byte length of every buffer and the payload offset
  \<open>6 + 16 N + \<close> (the lengths of the buffers before it) of every buffer are at most
  \<open>2^32 - 1\<close>: \<open>encodeIco\<close> returns a buffer, and \<open>getIcoInfo\<close> on it gives the image count
  \<open>N\<close> and \<open>N\<close> entries, entry \<open>i\<close> with the width and height of the IHDR of input \<open>i\<close> and
  the byte length of input \<open>i\<close> as its size.
\<close>

theorem roundtrip_reports_batch:
  assumes "1 \<le> length pngs" and "length pngs \<le> 256"
    and "\<forall>i<length pngs. \<exists>info.
           validateAndExtractPngInfo (JBuffer (pngs ! i)) (i + 1) = Inr info
           \<and> 0 < width info \<and> width info \<le> 256 \<and> 0 < height info \<and> height info \<le> 256"
    and "\<forall>i<length pngs.
           length (pngs ! i) \<le> 4294967295
           \<and> 6 + 16 * length pngs + sum_list (map length (take i pngs)) \<le> 4294967295"
  shows "\<exists>out r. encodeIco (JArray (map JBuffer pngs)) = Inr out
           \<and> getIcoInfo (JBuffer out) = Inr r \<and> imageCount r = length pngs
           \<and> length (images r) = length pngs
           \<and> (\<forall>i<length pngs.
                 width (images r ! i) = be32 (pngs ! i) 16
                 \<and> height (images r ! i) = be32 (pngs ! i) 20
                 \<and> size_bytes (images r ! i) = length (pngs ! i))"
proof -
  let ?off = "6 + 16 * length pngs"
  let ?out = "header_bytes (length pngs) @ dir_table (map png_info pngs) ?off @ concat pngs"
  have ne: "pngs \<noteq> []" using assms(1) by auto
  have wf: "list_all well_formed_png pngs"
    unfolding list_all_length
  proof (intro allI impI)
    fix i assume "i < length pngs"
    with assms(3) obtain info where
      "validateAndExtractPngInfo (JBuffer (pngs ! i)) (i + 1) = Inr info" by blast
    then show "well_formed_png (pngs ! i)" by (simp add: validate_buffer)
  qed
  have fits: "fits32 (map png_info pngs) ?off"
    using assms(4) by (simp add: fits32_iff entry_offset_png_info)
  have enc: "encodeIco (JArray (map JBuffer pngs)) = Inr ?out"
    using ne assms(2) wf fits by (simp add: encodeIco_Inr_iff)
  have "getIcoInfo (JBuffer ?out) =
      Inr \<lparr>imageCount = length pngs, type = ICO, images = map reported_entry pngs\<rparr>"
    using wf ne assms(2) fits by (rule getIcoInfo_encoded)
  with enc show ?thesis by (simp add: reported_entry_def)
qed

theorem roundtrip_reports_batch_witness:
  "1 \<le> length [png16, png256] \<and> length [png16, png256] \<le> 256
   \<and> validateAndExtractPngInfo (JBuffer png16) 1 = Inr (png_info png16)
   \<and> width (png_info png16) = 16 \<and> height (png_info png16) = 16
   \<and> validateAndExtractPngInfo (JBuffer png256) 2 = Inr (png_info png256)
   \<and> width (png_info png256) = 256 \<and> height (png_info png256) = 256
   \<and> length png16 = 24 \<and> length png256 = 25
   \<and> (\<exists>out r. encodeIco (JArray (map JBuffer [png16, png256])) = Inr out
           \<and> getIcoInfo (JBuffer out) = Inr r \<and> imageCount r = 2
           \<and> images r ! 0 = \<lparr>width = 16, height = 16, size_bytes = 24\<rparr>
           \<and> images r ! 1 = \<lparr>width = 256, height = 256, size_bytes = 25\<rparr>)"
proof -
  have h1: "1 \<le> length [png16, png256]" and h2: "length [png16, png256] \<le> 256" by simp_all
  have h3: "\<forall>i<length [png16, png256]. \<exists>info.
           validateAndExtractPngInfo (JBuffer ([png16, png256] ! i)) (i + 1) = Inr info
           \<and> 0 < width info \<and> width info \<le> 256 \<and> 0 < height info \<and> height info \<le> 256"
    by (simp add: All_less_Suc validate_samples sample_dims)
  have h4: "\<forall>i<length [png16, png256].
           length ([png16, png256] ! i) \<le> 4294967295
           \<and> 6 + 16 * length [png16, png256] + sum_list (map length (take i [png16, png256]))
               \<le> 4294967295"
    by (simp add: All_less_Suc sample_dims)
  from roundtrip_reports_batch[OF h1 h2 h3 h4] obtain out r where
    r: "encodeIco (JArray (map JBuffer [png16, png256])) = Inr out"
       "getIcoInfo (JBuffer out) = Inr r" "imageCount r = length [png16, png256]"
       "\<forall>i<length [png16, png256].
                 width (images r ! i) = be32 ([png16, png256] ! i) 16
                 \<and> height (images r ! i) = be32 ([png16, png256] ! i) 20
                 \<and> size_bytes (images r ! i) = length ([png16, png256] ! i)"
    by blast
  from r(4) have "images r ! 0 = \<lparr>width = 16, height = 16, size_bytes = 24\<rparr>"
    "images r ! 1 = \<lparr>width = 256, height = 256, size_bytes = 25\<rparr>"
    by (simp_all add: All_less_Suc sample_dims)
  with r(1,2,3) have "\<exists>out r. encodeIco (JArray (map JBuffer [png16, png256])) = Inr out
           \<and> getIcoInfo (JBuffer out) = Inr r \<and> imageCount r = 2
           \<and> images r ! 0 = \<lparr>width = 16, height = 16, size_bytes = 24\<rparr>
           \<and> images r ! 1 = \<lparr>width = 256, height = 256, size_bytes = 25\<rparr>"
    by auto
  then show ?thesis by (simp add: validate_samples sample_dims)
qed



text \<open>
  C3. \<open>encodeIco\<close> fails on the empty sequence and on a sequence of more than 256 buffers.
  If a buffer of the sequence fails validation, \<open>encodeIco\<close> returns an error and no
  buffer. The validation loop runs when the length is at most 256 and stops at the first
  image \<open>k\<close> (0-based) that fails, with cause \<open>e\<close>: the error is then the cause wrapped
  with the 1-based index \<open>k + 1\<close>.
\<close>

theorem encodeIco_rejects:
  "encodeIco (JArray []) = Inl NoPngBuffers
   \<and> (256 < length bufs \<longrightarrow> encodeIco (JArray bufs) = Inl (TooManyImages (length bufs)))
   \<and> (k < length bufs \<longrightarrow> validateAndExtractPngInfo (bufs ! k) (k + 1) = Inl e \<longrightarrow>
        (\<exists>err. encodeIco (JArray bufs) = Inl err))
   \<and> (length bufs \<le> 256 \<longrightarrow> k < length bufs \<longrightarrow>
        validateAndExtractPngInfo (bufs ! k) (k + 1) = Inl e \<longrightarrow>
        (\<forall>j<k. \<exists>info. validateAndExtractPngInfo (bufs ! j) (j + 1) = Inr info) \<longrightarrow>
        encodeIco (JArray bufs) = Inl (FailedToProcess (k + 1) e))"
proof (intro conjI impI)
  show "encodeIco (JArray []) = Inl NoPngBuffers" by (simp add: encodeIco_array)
next
  assume "256 < length bufs"
  then show "encodeIco (JArray bufs) = Inl (TooManyImages (length bufs))"
    by (auto simp: encodeIco_array)
next
  assume k: "k < length bufs" and v: "validateAndExtractPngInfo (bufs ! k) (k + 1) = Inl e"
  from validate_all_no_output[OF k v] obtain err where "validate_all bufs 0 = Inl err"
    by (cases "validate_all bufs 0") auto
  then show "\<exists>err. encodeIco (JArray bufs) = Inl err"
    by (simp add: encodeIco_array)
next
  assume le: "length bufs \<le> 256" and k: "k < length bufs"
    and v: "validateAndExtractPngInfo (bufs ! k) (k + 1) = Inl e"
    and before: "\<forall>j<k. \<exists>info. validateAndExtractPngInfo (bufs ! j) (j + 1) = Inr info"
  have "validate_all bufs 0 = Inl (FailedToProcess (0 + k + 1) e)"
    using k v before by (intro validate_all_fails) simp_all
  with le k show "encodeIco (JArray bufs) = Inl (FailedToProcess (k + 1) e)"
    by (auto simp: encodeIco_array)
qed

theorem encodeIco_rejects_witness:
  "256 < length (replicate 257 JOther)
   \<and> encodeIco (JArray (replicate 257 JOther)) = Inl (TooManyImages 257)
   \<and> length [JBuffer png16, JOther] \<le> 256 \<and> (1::nat) < length [JBuffer png16, JOther]
   \<and> validateAndExtractPngInfo ([JBuffer png16, JOther] ! 1) (1 + 1) = Inl (NotABuffer 2)
   \<and> validateAndExtractPngInfo ([JBuffer png16, JOther] ! 0) (0 + 1) = Inr (png_info png16)
   \<and> encodeIco (JArray [JBuffer png16, JOther]) = Inl (FailedToProcess 2 (NotABuffer 2))"
proof -
  have a: "256 < length (replicate 257 JOther)" by simp
  have b: "length [JBuffer png16, JOther] \<le> 256" "(1::nat) < length [JBuffer png16, JOther]"
    by simp_all
  have c: "validateAndExtractPngInfo ([JBuffer png16, JOther] ! 1) (1 + 1) = Inl (NotABuffer 2)"
    by (simp add: validateAndExtractPngInfo_def)
  have d: "validateAndExtractPngInfo ([JBuffer png16, JOther] ! 0) (0 + 1) = Inr (png_info png16)"
    by (simp add: validate_samples)
  have d': "\<forall>j<1. \<exists>info. validateAndExtractPngInfo ([JBuffer png16, JOther] ! j) (j + 1) = Inr info"
    using d by simp
  from encodeIco_rejects[of "replicate 257 JOther"] a
  have "encodeIco (JArray (replicate 257 JOther)) = Inl (TooManyImages 257)" by simp
  moreover from encodeIco_rejects[of "[JBuffer png16, JOther]" 1 "NotABuffer 2"] b c d'
  have "encodeIco (JArray [JBuffer png16, JOther]) = Inl (FailedToProcess 2 (NotABuffer 2))"
    by simp
  ultimately show ?thesis using a b c d by simp
qed

text \<open>
  C4 at the buffer \<open>png_high_bit\<close>: bytes 12 to 15 are \<open>C9 C8 C4 D2\<close>, not the ASCII codes
  \<open>49 48 44 52\<close> of \<open>IHDR\<close>, and \<open>validateAndExtractPngInfo\<close> accepts the buffer, since
  the \<open>'ascii'\<close> decoding clears the highest bit of each byte before the comparison.
\<close>

theorem validate_accepts_high_bit_chunk_type:
  "take 4 (drop 12 png_high_bit) = [0xC9, 0xC8, 0xC4, 0xD2]
   \<and> validateAndExtractPngInfo (JBuffer png_high_bit) 1 =
       Inr \<lparr>width = 16, height = 16, size_bytes = 24, buffer = png_high_bit\<rparr>"
proof -
  have "toString_ascii png_high_bit 12 16 = ''IHDR''"
    by (simp add: toString_ascii_def png_high_bit_def ascii_IHDR)
  then have "well_formed_png png_high_bit"
    by (simp add: well_formed_png_def) (simp add: png_high_bit_def PNG_SIGNATURE_def be32_def)
  moreover have "png_info png_high_bit =
      \<lparr>width = 16, height = 16, size_bytes = 24, buffer = png_high_bit\<rparr>"
    by (simp add: png_info_def) (simp add: png_high_bit_def be32_def)
  moreover have "take 4 (drop 12 png_high_bit) = [0xC9, 0xC8, 0xC4, 0xD2]"
    by (simp add: png_high_bit_def)
  ultimately show ?thesis by (simp add: validate_buffer)
qed

text \<open>
  C5. For a buffer \<open>b\<close>, \<open>isValidIco\<close> returns true exactly when \<open>b\<close> has at least 6 bytes,
  the 16-bit little-endian field at 0 is 0, the one at 2 is 1 or 2 and the one at 4 is in
  \<open>(0, 256]\<close>; \<open>isValidIco\<close> returns a boolean, never an error, on every value; and it
  returns true on every buffer that \<open>encodeIco\<close> returns.
\<close>

theorem isValidIco_spec:
  "isValidIco (JBuffer b) =
     Inr (6 \<le> length b \<and> le16 b 0 = 0 \<and> (le16 b 2 = 1 \<or> le16 b 2 = 2)
          \<and> 0 < le16 b 4 \<and> le16 b 4 \<le> 256)
   \<and> (\<exists>r. isValidIco v = Inr r)
   \<and> (encodeIco a = Inr out \<longrightarrow> isValidIco (JBuffer out) = Inr True)"
proof (intro conjI impI)
  show "isValidIco (JBuffer b) =
     Inr (6 \<le> length b \<and> le16 b 0 = 0 \<and> (le16 b 2 = 1 \<or> le16 b 2 = 2)
          \<and> 0 < le16 b 4 \<and> le16 b 4 \<le> 256)"
    by (simp add: isValidIco_buffer valid_ico_header_def)
next
  show "\<exists>r. isValidIco v = Inr r"
    by (cases v) (auto simp: isValidIco_buffer isValidIco_other)
next
  assume enc: "encodeIco a = Inr out"
  then obtain pngs where a: "a = JArray (map JBuffer pngs)"
    by (auto dest: encodeIco_Inr_buffers)
  with enc have e: "pngs \<noteq> []" "length pngs \<le> 256"
    "out = header_bytes (length pngs) @ dir_table (map png_info pngs) (6 + 16 * length pngs)
             @ concat pngs"
    by (simp_all add: encodeIco_Inr_iff)
  have "valid_ico_header out"
    unfolding e(3) using e(1,2)
    by (simp add: valid_ico_header_def header_fields del: append_assoc)
  then show "isValidIco (JBuffer out) = Inr True"
    by (simp add: isValidIco_buffer)
qed

theorem isValidIco_spec_witness:
  "encodeIco (JArray (map JBuffer [png16, png256])) = Inr ico_sample
   \<and> isValidIco (JBuffer ico_sample) = Inr True"
proof -
  from isValidIco_spec[of "[]" JOther "JArray (map JBuffer [png16, png256])" ico_sample]
  have "encodeIco (JArray (map JBuffer [png16, png256])) = Inr ico_sample
        \<longrightarrow> isValidIco (JBuffer ico_sample) = Inr True"
    by blast
  with encodeIco_sample show ?thesis by blast
qed

text \<open>
  C6, as stated (any image of width and height 256), is false: the 4 GiB sample of width
  and height 256 passes validation, and \<open>encodeIco\<close> on it alone throws the \<open>RangeError\<close>
  of \<open>writeUInt32LE\<close>, so nothing is stored and nothing comes back.
\<close>

theorem dimension_256_counterexample:
  "validateAndExtractPngInfo (JBuffer png256_4GiB) 1 =
     Inr \<lparr>width = 256, height = 256, size_bytes = 4294967296, buffer = png256_4GiB\<rparr>
   \<and> encodeIco (JArray [JBuffer png256_4GiB]) = Inl ERR_OUT_OF_RANGE"
proof -
  have "validateAndExtractPngInfo (JBuffer png256_4GiB) 1 =
     Inr \<lparr>width = 256, height = 256, size_bytes = 4294967296, buffer = png256_4GiB\<rparr>"
    by (simp add: validate_buffer wf256_4GiB png_info_def png_4GiB_dims length_png256_4GiB)
  with encodeIco_4GiB[OF wf256_4GiB length_png256_4GiB] show ?thesis by simp
qed

text \<open>
  C6, amended. An image whose IHDR width and height are both 256, at any position \<open>i\<close> of a
  batch of 1 to 256 buffers that pass validation and in which the byte length of every
  buffer and the payload offset of every buffer are at most \<open>2^32 - 1\<close>: \<open>encodeIco\<close>
  returns a buffer, the width and height bytes of the image's directory entry in it are 0,
  and \<open>getIcoInfo\<close> on it reports width 256 and height 256 for the image. And in any
  buffer that \<open>getIcoInfo\<close> decodes, a stored width or height byte 0 is reported as 256.
\<close>

theorem dimension_256_roundtrip:
  "(1 \<le> length pngs \<longrightarrow> length pngs \<le> 256 \<longrightarrow>
      (\<forall>k<length pngs. \<exists>info.
          validateAndExtractPngInfo (JBuffer (pngs ! k)) (k + 1) = Inr info) \<longrightarrow>
      (\<forall>k<length pngs.
          length (pngs ! k) \<le> 4294967295
          \<and> 6 + 16 * length pngs + sum_list (map length (take k pngs)) \<le> 4294967295) \<longrightarrow>
      i < length pngs \<longrightarrow> be32 (pngs ! i) 16 = 256 \<longrightarrow> be32 (pngs ! i) 20 = 256 \<longrightarrow>
      (\<exists>out r. encodeIco (JArray (map JBuffer pngs)) = Inr out
          \<and> out ! (6 + 16 * i) = 0 \<and> out ! (6 + 16 * i + 1) = 0
          \<and> getIcoInfo (JBuffer out) = Inr r \<and> i < length (images r)
          \<and> width (images r ! i) = 256 \<and> height (images r ! i) = 256))
   \<and> (getIcoInfo (JBuffer b) = Inr r' \<longrightarrow> j < length (images r') \<longrightarrow>
        (b ! (6 + 16 * j) = 0 \<longrightarrow> width (images r' ! j) = 256)
        \<and> (b ! (6 + 16 * j + 1) = 0 \<longrightarrow> height (images r' ! j) = 256))"
proof (intro conjI impI)
  assume n1: "1 \<le> length pngs" and n2: "length pngs \<le> 256"
    and valid: "\<forall>k<length pngs. \<exists>info.
          validateAndExtractPngInfo (JBuffer (pngs ! k)) (k + 1) = Inr info"
    and bound: "\<forall>k<length pngs.
          length (pngs ! k) \<le> 4294967295
          \<and> 6 + 16 * length pngs + sum_list (map length (take k pngs)) \<le> 4294967295"
    and i: "i < length pngs"
    and w: "be32 (pngs ! i) 16 = 256" and h: "be32 (pngs ! i) 20 = 256"
  let ?infos = "map png_info pngs"
  let ?off = "6 + 16 * length pngs"
  let ?out = "header_bytes (length pngs) @ dir_table ?infos ?off @ concat pngs"
  have ne: "pngs \<noteq> []" using n1 by auto
  have wf: "list_all well_formed_png pngs"
    unfolding list_all_length
  proof (intro allI impI)
    fix k assume "k < length pngs"
    with valid obtain info where
      "validateAndExtractPngInfo (JBuffer (pngs ! k)) (k + 1) = Inr info" by blast
    then show "well_formed_png (pngs ! k)" by (simp add: validate_buffer)
  qed
  have fits: "fits32 ?infos ?off"
    using bound by (simp add: fits32_iff entry_offset_png_info)
  have enc: "encodeIco (JArray (map JBuffer pngs)) = Inr ?out"
    using ne n2 wf fits by (simp add: encodeIco_Inr_iff)
  have i': "i < length ?infos" using i by simp
  have b0: "?out ! (6 + 16 * i) = 0"
    using encoded_nth[OF i', of 0 "length pngs" ?off "concat pngs"] i w
    by (simp add: entry_bytes_def)
  have b1: "?out ! (6 + 16 * i + 1) = 0"
    using encoded_nth[OF i', of 1 "length pngs" ?off "concat pngs"] i h
    by (simp add: entry_bytes_def)
  have g: "getIcoInfo (JBuffer ?out) =
      Inr \<lparr>imageCount = length pngs, type = ICO, images = map reported_entry pngs\<rparr>"
    using wf ne n2 fits by (rule getIcoInfo_encoded)
  let ?r = "\<lparr>imageCount = length pngs, type = ICO, images = map reported_entry pngs\<rparr>"
  have "i < length (images ?r)" "width (images ?r ! i) = 256" "height (images ?r ! i) = 256"
    using i w h by (simp_all add: reported_entry_def)
  with enc b0 b1 g show "\<exists>out r. encodeIco (JArray (map JBuffer pngs)) = Inr out
          \<and> out ! (6 + 16 * i) = 0 \<and> out ! (6 + 16 * i + 1) = 0
          \<and> getIcoInfo (JBuffer out) = Inr r \<and> i < length (images r)
          \<and> width (images r ! i) = 256 \<and> height (images r ! i) = 256"
    by blast
next
  assume g: "getIcoInfo (JBuffer b) = Inr r'" and j: "j < length (images r')"
    and z: "b ! (6 + 16 * j) = 0"
  from j have "images r' ! j = decode_entry b j"
    unfolding getIcoInfo_Inr_D[OF g] by simp
  with z show "width (images r' ! j) = 256"
    by (simp add: decode_entry_def stored_dimension_def)
next
  assume g: "getIcoInfo (JBuffer b) = Inr r'" and j: "j < length (images r')"
    and z: "b ! (6 + 16 * j + 1) = 0"
  from j have "images r' ! j = decode_entry b j"
    unfolding getIcoInfo_Inr_D[OF g] by simp
  with z show "height (images r' ! j) = 256"
    by (simp add: decode_entry_def stored_dimension_def)
qed

theorem dimension_256_roundtrip_witness:
  "1 \<le> length [png16, png256] \<and> length [png16, png256] \<le> 256
   \<and> validateAndExtractPngInfo (JBuffer png16) 1 = Inr (png_info png16)
   \<and> validateAndExtractPngInfo (JBuffer png256) 2 = Inr (png_info png256)
   \<and> length png16 = 24 \<and> length png256 = 25
   \<and> (1::nat) < length [png16, png256]
   \<and> be32 ([png16, png256] ! 1) 16 = 256 \<and> be32 ([png16, png256] ! 1) 20 = 256
   \<and> (\<exists>out r. encodeIco (JArray (map JBuffer [png16, png256])) = Inr out
          \<and> out ! 22 = 0 \<and> out ! 23 = 0
          \<and> getIcoInfo (JBuffer out) = Inr r \<and> (1::nat) < length (images r)
          \<and> width (images r ! 1) = 256 \<and> height (images r ! 1) = 256)
   \<and> getIcoInfo (JBuffer ico_sample) =
        Inr \<lparr>imageCount = 2, type = ICO,
             images = [\<lparr>width = 16, height = 16, size_bytes = 24\<rparr>,
                       \<lparr>width = 256, height = 256, size_bytes = 25\<rparr>]\<rparr>
   \<and> ico_sample ! 22 = 0 \<and> ico_sample ! 23 = 0"
proof -
  let ?pngs = "[png16, png256]"
  let ?r = "\<lparr>imageCount = 2, type = ICO,
          images = [\<lparr>width = 16, height = 16, size_bytes = 24\<rparr>,
                    \<lparr>width = 256, height = 256, size_bytes = 25\<rparr>]\<rparr>"
  have n: "1 \<le> length ?pngs" "length ?pngs \<le> 256" by simp_all
  have valid: "\<forall>k<length ?pngs. \<exists>info.
          validateAndExtractPngInfo (JBuffer (?pngs ! k)) (k + 1) = Inr info"
    by (simp add: All_less_Suc validate_samples)
  have bound: "\<forall>k<length ?pngs.
          length (?pngs ! k) \<le> 4294967295
          \<and> 6 + 16 * length ?pngs + sum_list (map length (take k ?pngs)) \<le> 4294967295"
    by (simp add: All_less_Suc sample_dims)
  have h: "(1::nat) < length ?pngs" "be32 (?pngs ! 1) 16 = 256" "be32 (?pngs ! 1) 20 = 256"
    by (simp_all add: sample_dims)
  have j: "(1::nat) < length (images ?r)" by simp
  note t = dimension_256_roundtrip[of ?pngs 1 ico_sample ?r 1]
  from t n valid bound h
  have a: "\<exists>out r. encodeIco (JArray (map JBuffer ?pngs)) = Inr out
          \<and> out ! (6 + 16 * 1) = 0 \<and> out ! (6 + 16 * 1 + 1) = 0
          \<and> getIcoInfo (JBuffer out) = Inr r \<and> (1::nat) < length (images r)
          \<and> width (images r ! 1) = 256 \<and> height (images r ! 1) = 256"
    by blast
  then have a': "\<exists>out r. encodeIco (JArray (map JBuffer ?pngs)) = Inr out
          \<and> out ! 22 = 0 \<and> out ! 23 = 0
          \<and> getIcoInfo (JBuffer out) = Inr r \<and> (1::nat) < length (images r)
          \<and> width (images r ! 1) = 256 \<and> height (images r ! 1) = 256"
    by simp
  have z: "ico_sample ! 22 = 0" "ico_sample ! 23 = 0"
    by (simp_all add: ico_sample_def)
  from t getIcoInfo_sample j z
  have "width (images ?r ! 1) = 256 \<and> height (images ?r ! 1) = 256"
    by simp
  with a' z getIcoInfo_sample n h show ?thesis
    by (simp add: validate_samples sample_dims)
qed

text \<open>
  C7, as stated (every validated image info, every offset, the construction never fails),
  is false: for the validated 16 by 16 sample and the offset \<open>2^32\<close>,
  \<open>writeUInt32LE\<close> throws its \<open>RangeError\<close>.
\<close>

theorem createIcoDirectoryEntry_counterexample:
  "validateAndExtractPngInfo (JBuffer png16) 1 = Inr (png_info png16)
   \<and> createIcoDirectoryEntry (png_info png16) 4294967296 = Inl ERR_OUT_OF_RANGE"
  by (simp add: validate_samples createIcoDirectoryEntry_eq)

text \<open>
  C7, amended. For every validated image info whose payload has at most \<open>2^32 - 1\<close> bytes
  and every offset of at most \<open>2^32 - 1\<close>, \<open>createIcoDirectoryEntry\<close> returns 16 bytes:
  byte 0 the width and byte 1 the height, with 256 stored as 0; bytes 2 and 3 zero;
  bytes 4-5 the value 1 and bytes 6-7 the value 32, little-endian; bytes 8-11 the byte
  length of the payload and bytes 12-15 the offset, little-endian.
\<close>

theorem createIcoDirectoryEntry_layout:
  assumes "validateAndExtractPngInfo v index = Inr info"
    and "length (buffer info) \<le> 4294967295" and "offset \<le> 4294967295"
  shows "\<exists>entry. createIcoDirectoryEntry info offset = Inr entry \<and> length entry = 16
           \<and> unat (entry ! 0) = (if width info = 256 then 0 else width info)
           \<and> unat (entry ! 1) = (if height info = 256 then 0 else height info)
           \<and> entry ! 2 = 0 \<and> entry ! 3 = 0
           \<and> readUInt16LE entry 4 = Inr 1 \<and> readUInt16LE entry 6 = Inr 32
           \<and> readUInt32LE entry 8 = Inr (length (buffer info))
           \<and> readUInt32LE entry 12 = Inr offset"
proof -
  from assms(1) obtain buf where b: "well_formed_png buf" "info = png_info buf"
    by (auto simp: validate_Inr_iff)
  let ?e = "entry_bytes (width info) (height info) (size_bytes info) offset"
  have sz: "size_bytes info = length (buffer info)" using b by simp
  have dims: "0 < width info" "width info \<le> 256" "0 < height info" "height info \<le> 256"
    using b by (simp_all add: well_formed_png_def)
  have c: "createIcoDirectoryEntry info offset = Inr ?e"
    using assms(2,3) sz by (simp add: createIcoDirectoryEntry_eq)
  have w: "unat (?e ! 0) = (if width info = 256 then 0 else width info)"
    using dims by (simp add: entry_bytes_def unat_of_nat_byte)
  have h: "unat (?e ! 1) = (if height info = 256 then 0 else height info)"
    using dims by (simp add: entry_bytes_def unat_of_nat_byte)
  have z: "?e ! 2 = 0" "?e ! 3 = 0" "readUInt16LE ?e 4 = Inr 1" "readUInt16LE ?e 6 = Inr 32"
    by (simp_all add: entry_bytes_def readUInt16LE_def)
  have s: "readUInt32LE ?e 8 = Inr (length (buffer info))"
    using le32_entry_size[of "size_bytes info" "[]" "width info" "height info" offset "[]"]
      assms(2) sz
    by (simp add: readUInt32LE_in_range)
  have o: "readUInt32LE ?e 12 = Inr offset"
    using le32_entry_offset[of offset "[]" "width info" "height info" "size_bytes info" "[]"]
      assms(3)
    by (simp add: readUInt32LE_in_range)
  from c w h z s o show ?thesis by simp
qed

theorem createIcoDirectoryEntry_layout_witness:
  "validateAndExtractPngInfo (JBuffer png256) 2 = Inr (png_info png256)
   \<and> length (buffer (png_info png256)) \<le> 4294967295 \<and> (62::nat) \<le> 4294967295
   \<and> createIcoDirectoryEntry (png_info png256) 62
       = Inr [0, 0, 0, 0, 1, 0, 32, 0, 25, 0, 0, 0, 62, 0, 0, 0]
   \<and> (\<exists>entry. createIcoDirectoryEntry (png_info png256) 62 = Inr entry
         \<and> unat (entry ! 0) = 0 \<and> readUInt32LE entry 8 = Inr 25 \<and> readUInt32LE entry 12 = Inr 62)"
proof -
  have h1: "validateAndExtractPngInfo (JBuffer png256) 2 = Inr (png_info png256)"
    by (rule validate_samples)
  have h2: "length (buffer (png_info png256)) \<le> 4294967295" by (simp add: sample_dims)
  have h3: "(62::nat) \<le> 4294967295" by simp
  from createIcoDirectoryEntry_layout[OF h1 h2 h3]
  have "\<exists>entry. createIcoDirectoryEntry (png_info png256) 62 = Inr entry
         \<and> unat (entry ! 0) = 0 \<and> readUInt32LE entry 8 = Inr 25 \<and> readUInt32LE entry 12 = Inr 62"
    by (auto simp: sample_dims)
  moreover have "createIcoDirectoryEntry (png_info png256) 62
       = Inr [0, 0, 0, 0, 1, 0, 32, 0, 25, 0, 0, 0, 62, 0, 0, 0]"
    by (simp add: createIcoDirectoryEntry_eq entry_bytes_def sample_dims)
  ultimately show ?thesis using h1 h2 h3 by blast
qed

text \<open>
  C8. \<open>getIcoInfo\<close> fails exactly when \<open>isValidIco\<close> is false, with the error
  \<open>InvalidIcoFile\<close>. Otherwise its argument is a buffer and it returns the count and the
  type of the header and one image for each of the first \<open>count\<close> directory entries that lie
  whole inside the buffer, in order: the width and height bytes with 0 read as 256, and
  the size field as stored. Nothing beyond the header and those entries is read.
\<close>

theorem getIcoInfo_spec:
  "((\<exists>e. getIcoInfo v = Inl e) \<longleftrightarrow> isValidIco v = Inr False)
   \<and> (isValidIco v = Inr False \<longrightarrow> getIcoInfo v = Inl InvalidIcoFile)
   \<and> (isValidIco v = Inr True \<longrightarrow> (\<exists>buf. v = JBuffer buf))
   \<and> (isValidIco (JBuffer b) = Inr True \<longrightarrow>
        getIcoInfo (JBuffer b) =
          Inr \<lparr>imageCount = le16 b 4,
               type = (if le16 b 2 = 1 then ICO else CUR),
               images = map (\<lambda>i. \<lparr>width = (if b ! (6 + 16 * i) = 0 then 256
                                            else unat (b ! (6 + 16 * i))),
                                   height = (if b ! (6 + 16 * i + 1) = 0 then 256
                                             else unat (b ! (6 + 16 * i + 1))),
                                   size_bytes = le32 b (6 + 16 * i + 8)\<rparr>)
                            [0..<min (le16 b 4) ((length b - 6) div 16)]\<rparr>)"
proof (intro conjI impI)
  show "(\<exists>e. getIcoInfo v = Inl e) \<longleftrightarrow> isValidIco v = Inr False"
    by (cases v) (auto simp: getIcoInfo_buffer getIcoInfo_other isValidIco_buffer isValidIco_other)
next
  assume "isValidIco v = Inr False"
  then show "getIcoInfo v = Inl InvalidIcoFile"
    by (cases v) (auto simp: getIcoInfo_buffer getIcoInfo_other isValidIco_buffer)
next
  assume "isValidIco v = Inr True"
  then show "\<exists>buf. v = JBuffer buf"
    by (cases v) (auto simp: isValidIco_other)
next
  assume "isValidIco (JBuffer b) = Inr True"
  then have "valid_ico_header b" by (simp add: isValidIco_buffer)
  then show "getIcoInfo (JBuffer b) =
          Inr \<lparr>imageCount = le16 b 4,
               type = (if le16 b 2 = 1 then ICO else CUR),
               images = map (\<lambda>i. \<lparr>width = (if b ! (6 + 16 * i) = 0 then 256
                                            else unat (b ! (6 + 16 * i))),
                                   height = (if b ! (6 + 16 * i + 1) = 0 then 256
                                             else unat (b ! (6 + 16 * i + 1))),
                                   size_bytes = le32 b (6 + 16 * i + 8)\<rparr>)
                            [0..<min (le16 b 4) ((length b - 6) div 16)]\<rparr>"
    by (simp add: getIcoInfo_buffer decode_entry_def stored_dimension_def unat_byte_eq_0)
qed

theorem getIcoInfo_spec_witness:
  "isValidIco JOther = Inr False \<and> getIcoInfo JOther = Inl InvalidIcoFile
   \<and> isValidIco (JBuffer ico_truncated) = Inr True
   \<and> getIcoInfo (JBuffer ico_truncated) =
       Inr \<lparr>imageCount = 3, type = CUR,
            images = [\<lparr>width = 256, height = 256, size_bytes = 5\<rparr>]\<rparr>"
proof -
  have a: "isValidIco JOther = Inr False" by (simp add: isValidIco_def)
  have f: "le16 ico_truncated 0 = 0" "le16 ico_truncated 2 = 2" "le16 ico_truncated 4 = 3"
    "length ico_truncated = 25"
    by (simp_all add: le16_def ico_truncated_def)
  have b: "isValidIco (JBuffer ico_truncated) = Inr True"
    by (simp add: isValidIco_buffer valid_ico_header_def f)
  have c: "[0..<min (le16 ico_truncated 4) ((length ico_truncated - 6) div 16)] = [0]"
    by (simp add: f)
  from getIcoInfo_spec[of JOther ico_truncated] a
  have "getIcoInfo JOther = Inl InvalidIcoFile" by blast
  moreover from getIcoInfo_spec[of JOther ico_truncated] b
  have "getIcoInfo (JBuffer ico_truncated) =
          Inr \<lparr>imageCount = le16 ico_truncated 4,
               type = (if le16 ico_truncated 2 = 1 then ICO else CUR),
               images = map (\<lambda>i. \<lparr>width = (if ico_truncated ! (6 + 16 * i) = 0 then 256
                                            else unat (ico_truncated ! (6 + 16 * i))),
                                   height = (if ico_truncated ! (6 + 16 * i + 1) = 0 then 256
                                             else unat (ico_truncated ! (6 + 16 * i + 1))),
                                   size_bytes = le32 ico_truncated (6 + 16 * i + 8)\<rparr>)
                            [0..<min (le16 ico_truncated 4) ((length ico_truncated - 6) div 16)]\<rparr>"
    by blast
  then have "getIcoInfo (JBuffer ico_truncated) =
       Inr \<lparr>imageCount = 3, type = CUR,
            images = [\<lparr>width = 256, height = 256, size_bytes = 5\<rparr>]\<rparr>"
    unfolding c f by (simp add: ico_truncated_def le32_def)
  ultimately show ?thesis using a b by simp
qed

text \<open>
  C9. \<open>encodeIco\<close> changes none of its input buffers. Whatever the argument, and whether the
  call returns or throws, every buffer that was in the store before the call has the same
  bytes after it; the buffer returned is a new one, and it (or the error) is what the
  function \<open>encodeIco\<close> on values gives for the content of the argument.
\<close>

theorem encodeIco_keeps_inputs:
  assumes "allocated s v" and "st_encodeIco v s = (r, s')"
  shows "(\<forall>a<length s. s' ! a = s ! a)
         \<and> (case r of
               Inl e \<Rightarrow> encodeIco (fetch s v) = Inl e
             | Inr out \<Rightarrow> length s \<le> out \<and> out < length s'
                          \<and> encodeIco (fetch s v) = Inr (s' ! out))"
proof (cases v)
  case (RBuffer a)
  with assms(2) show ?thesis by (auto simp: st_encodeIco_def encodeIco_def)
next
  case ROther
  with assms(2) show ?thesis by (auto simp: st_encodeIco_def encodeIco_def)
next
  case (RArray rs)
  show ?thesis
  proof (cases "rs = [] \<or> length rs > 256")
    case True
    have "st_encodeIco v s =
        (if rs = [] then (Inl NoPngBuffers, s) else (Inl (TooManyImages (length rs)), s))"
      using True RArray by (auto simp: st_encodeIco_def MAX_IMAGES_def)
    moreover have "encodeIco (fetch s v) =
        (if rs = [] then Inl NoPngBuffers else Inl (TooManyImages (length rs)))"
      using True RArray by (auto simp: encodeIco_array)
    ultimately show ?thesis using assms(2) by (auto split: if_splits)
  next
    case False
    show ?thesis
    proof (cases "validate_all (map (fetch s) rs) 0")
      case (Inl e)
      then have "st_validate_all s rs 0 = Inl e" by (simp add: st_validate_all_sim)
      then have "st_encodeIco v s = (Inl e, s)"
        using False RArray by (simp add: st_encodeIco_def MAX_IMAGES_def)
      moreover have "encodeIco (fetch s v) = Inl e"
        using False RArray Inl by (simp add: encodeIco_array)
      ultimately show ?thesis using assms(2) by auto
    next
      case (Inr infos)
      then obtain as where as: "rs = map RBuffer as" by (auto dest: all_buffers)
      let ?pngs = "map (\<lambda>a. s ! a) as"
      have al: "list_all (\<lambda>a. a < length s) as"
        using assms(1) RArray as by (simp add: list_all_iff)
      have wf: "list_all well_formed_png ?pngs"
        using Inr as validate_all_buffers[of ?pngs 0 infos] by (simp add: comp_def)
      from False as have ne: "as \<noteq> []" and le: "length as \<le> 256" by simp_all
      from st_encodeIco_buffers[OF al ne le wf] obtain S' where
        S': "length s < length S'" "\<forall>a<length s. S' ! a = s ! a"
        "st_encodeIco (RArray (map RBuffer as)) s =
               (case encodeIco (JArray (map JBuffer ?pngs)) of
                  Inl e \<Rightarrow> (Inl e, S')
                | Inr out \<Rightarrow> (Inr (length S'), S' @ [out]))"
        by blast
      have f: "fetch s v = JArray (map JBuffer ?pngs)"
        using RArray as by (simp add: comp_def)
      show ?thesis
      proof (cases "encodeIco (JArray (map JBuffer ?pngs))")
        case (Inl e)
        with S' assms(2) RArray as have "r = Inl e" "s' = S'" by simp_all
        with S'(2) Inl f show ?thesis by simp
      next
        case (Inr out)
        with S' assms(2) RArray as have "r = Inr (length S')" "s' = S' @ [out]" by simp_all
        with S'(1,2) Inr f show ?thesis by (simp add: nth_append)
      qed
    qed
  qed
qed

theorem encodeIco_keeps_inputs_witness:
  "allocated [png16, png256] (RArray [RBuffer 0, RBuffer 1])
   \<and> st_encodeIco (RArray [RBuffer 0, RBuffer 1]) [png16, png256]
       = (fst (st_encodeIco (RArray [RBuffer 0, RBuffer 1]) [png16, png256]),
          snd (st_encodeIco (RArray [RBuffer 0, RBuffer 1]) [png16, png256]))
   \<and> snd (st_encodeIco (RArray [RBuffer 0, RBuffer 1]) [png16, png256]) ! 0 = png16
   \<and> snd (st_encodeIco (RArray [RBuffer 0, RBuffer 1]) [png16, png256]) ! 1 = png256
   \<and> (\<exists>out. fst (st_encodeIco (RArray [RBuffer 0, RBuffer 1]) [png16, png256]) = Inr out
         \<and> snd (st_encodeIco (RArray [RBuffer 0, RBuffer 1]) [png16, png256]) ! out = ico_sample)"
proof -
  let ?v = "RArray [RBuffer 0, RBuffer 1]"
  let ?s = "[png16, png256]"
  let ?R = "st_encodeIco ?v ?s"
  have h1: "allocated ?s ?v" by simp
  have h2: "?R = (fst ?R, snd ?R)" by simp
  have f: "encodeIco (fetch ?s ?v) = Inr ico_sample"
    using encodeIco_sample by simp
  note t = encodeIco_keeps_inputs[OF h1 h2]
  from t have keep: "\<forall>a<length ?s. snd ?R ! a = ?s ! a" by blast
  then have k: "snd ?R ! 0 = png16" "snd ?R ! 1 = png256" by simp_all
  from t have c: "case fst ?R of
               Inl e \<Rightarrow> encodeIco (fetch ?s ?v) = Inl e
             | Inr out \<Rightarrow> length ?s \<le> out \<and> out < length (snd ?R)
                          \<and> encodeIco (fetch ?s ?v) = Inr (snd ?R ! out)"
    by blast
  have "\<exists>out. fst ?R = Inr out \<and> snd ?R ! out = ico_sample"
  proof (cases "fst ?R")
    case (Inl e)
    with c f show ?thesis by simp
  next
    case (Inr out)
    with c f show ?thesis by simp
  qed
  with h1 k show ?thesis by simp
qed

text \<open>
  C10. On every batch that the validating \<open>encodeIco\<close> accepts, the second \<open>encodeIco\<close>
  returns the same bytes. (By \<open>encodeIco_Inr_buffers\<close> an accepted argument is an array of
  buffers.)
\<close>

theorem encodeIco_alt_agrees:
  assumes "encodeIco (JArray (map JBuffer pngs)) = Inr out"
  shows "encodeIco_alt pngs = Inr out"
proof -
  from assms have e: "length pngs \<le> 256" "list_all well_formed_png pngs"
    "fits32 (map png_info pngs) (6 + 16 * length pngs)"
    "out = header_bytes (length pngs) @ dir_table (map png_info pngs) (6 + 16 * length pngs)
             @ concat pngs"
    by (simp_all add: encodeIco_Inr_iff)
  from e(1) have "length pngs \<le> 65535" by simp
  from encodeIco_alt_eq[OF e(2) this] e(3,4) show ?thesis by simp
qed

theorem encodeIco_alt_agrees_witness:
  "encodeIco (JArray (map JBuffer [png16, png256])) = Inr ico_sample
   \<and> encodeIco_alt [png16, png256] = Inr ico_sample"
  using encodeIco_alt_agrees[OF encodeIco_sample] encodeIco_sample by simp

end
